theory Spec2Isabelle
  imports Complex_Main "HOL-Library.Word" "HOL-Library.AList" "HOL-Library.Log_Nat"
begin

unbundle bit_operations_syntax

section \<open>JavaScript values\<close>

text \<open>
  The configuration codec and the sequencer handle untyped JavaScript values: a
  geometry configuration is an object read and written by key, and a decoded token can
  hold any JSON value.  A finite number is a rational; \<open>JNaN\<close> is what
  \<^verbatim>\<open>parseInt\<close> and \<^verbatim>\<open>Number\<close> give for a non-numeral.  An object
  is an association list in insertion order, read with \<open>getProp\<close> and written with
  \<open>AList.update\<close> (a present key keeps its place, a new key goes to the end).  A
  \<open>char\<close> stands for one code unit of a JavaScript string.
\<close>

datatype jsval =
    JUndefined
  | JNull
  | JBool bool
  | JNum rat
  | JNaN
  | JStr string
  | JArr "jsval list"
  | JObj "(string \<times> jsval) list"

type_synonym obj = "(string \<times> jsval) list"

datatype jserror = TypeError | RangeError | UndefinedEntry

text \<open>\<^verbatim>\<open>o[k]\<close> on an object: a missing key reads as \<^verbatim>\<open>undefined\<close>.\<close>

definition getProp :: "obj \<Rightarrow> string \<Rightarrow> jsval" where
  "getProp ob k = (case map_of ob k of Some v \<Rightarrow> v | None \<Rightarrow> JUndefined)"

text \<open>Truthiness, as \<^verbatim>\<open>if (v)\<close>, \<^verbatim>\<open>v || d\<close> and \<^verbatim>\<open>v ? a : b\<close> test it.\<close>

fun truthy :: "jsval \<Rightarrow> bool" where
  "truthy JUndefined = False"
| "truthy JNull = False"
| "truthy (JBool b) = b"
| "truthy (JNum x) = (x \<noteq> 0)"
| "truthy JNaN = False"
| "truthy (JStr s) = (s \<noteq> [])"
| "truthy (JArr xs) = True"
| "truthy (JObj kvs) = True"

text \<open>
  \<^verbatim>\<open>a === b\<close>.  \<^verbatim>\<open>NaN\<close> equals nothing.  Arrays and objects compare by
  reference, which this value model does not have: two of them are never equal here (the
  fields of a \<^verbatim>\<open>GeoConfig\<close> are numbers, booleans and strings).
\<close>

fun strictEq :: "jsval \<Rightarrow> jsval \<Rightarrow> bool" where
  "strictEq JUndefined JUndefined = True"
| "strictEq JNull JNull = True"
| "strictEq (JBool a) (JBool b) = (a = b)"
| "strictEq (JNum a) (JNum b) = (a = b)"
| "strictEq (JStr a) (JStr b) = (a = b)"
| "strictEq _ _ = False"

text \<open>Decimal numerals of integers, as \<^verbatim>\<open>Number.prototype.toString\<close> prints them
  (integers below \<open>10\<^sup>2\<^sup>1\<close> in magnitude).\<close>

definition digitChar :: "nat \<Rightarrow> char" where
  "digitChar d = char_of (48 + d)"

fun natToString :: "nat \<Rightarrow> string" where
  "natToString n = (if n < 10 then [digitChar n] else natToString (n div 10) @ [digitChar (n mod 10)])"

definition intToString :: "int \<Rightarrow> string" where
  "intToString i = (if i < 0 then CHR ''-'' # natToString (nat (- i)) else natToString (nat i))"

section \<open>The collection of sequences (hooks/useSequencer.ts)\<close>

text \<open>
  \<^verbatim>\<open>interface Sequence { id: number; name: string; description?: string;
  data: number[]; geoConfig: GeoConfig }\<close>.  Ids are allocated as \<open>max + 1\<close> and
  the elements of \<open>data\<close> are edited as whole numbers, so both are integers here.
\<close>

record Sequence =
  sid :: int
  name :: string
  description :: "string option"
  data :: "int list"
  geoConfig :: obj

text \<open>The state the hook keeps with \<^verbatim>\<open>useState\<close>.\<close>

record SequencerState =
  sequences :: "Sequence list"
  activeIndex :: int
  isPlaying :: bool
  timingMs :: rat

text \<open>\<^verbatim>\<open>xs[i]\<close>: \<^verbatim>\<open>undefined\<close> (here \<open>None\<close>) out of range.\<close>

definition index :: "'a list \<Rightarrow> int \<Rightarrow> 'a option" where
  "index xs i = (if 0 \<le> i \<and> i < int (length xs) then Some (xs ! nat i) else None)"

text \<open>\<^verbatim>\<open>xs.findIndex(p)\<close>: the first position whose element satisfies \<open>p\<close>, or \<open>-1\<close>.\<close>

fun findIndex :: "('a \<Rightarrow> bool) \<Rightarrow> 'a list \<Rightarrow> int" where
  "findIndex p [] = -1"
| "findIndex p (x # xs) =
     (if p x then 0 else (let r = findIndex p xs in if r = -1 then -1 else r + 1))"

text \<open>\<^verbatim>\<open>Math.max(...xs)\<close> on a non-empty list.\<close>

fun mathMax :: "int list \<Rightarrow> int" where
  "mathMax [] = 0"
| "mathMax (x # xs) = fold max xs x"

text \<open>\<^verbatim>\<open>sequences.length > 0 ? Math.max(...sequences.map(s => s.id)) + 1 : 1\<close>\<close>

definition nextId :: "Sequence list \<Rightarrow> int" where
  "nextId seqs = (if length seqs > 0 then mathMax (map sid seqs) + 1 else 1)"

text \<open>
  \<^verbatim>\<open>new Array(n).fill(0)\<close>.  A number that is not an integer in \<open>[0, 2\<^sup>3\<^sup>2)\<close>
  raises RangeError; a value that is not a number becomes the single element of the new
  array, which \<^verbatim>\<open>fill\<close> then overwrites.
\<close>

definition newArrayFill0 :: "jsval \<Rightarrow> jserror + int list" where
  "newArrayFill0 v =
     (case v of
        JNum x \<Rightarrow>
          (if x = of_int \<lfloor>x\<rfloor> \<and> 0 \<le> x \<and> x < 2 ^ 32 then Inr (replicate (nat \<lfloor>x\<rfloor>) 0)
           else Inl RangeError)
      | JNaN \<Rightarrow> Inl RangeError
      | _ \<Rightarrow> Inr [0])"

text \<open>
  \<^verbatim>\<open>sequences[activeIndex] || sequences[0]\<close>: the active sequence, the first one
  when the index is out of range, \<^verbatim>\<open>undefined\<close> in an empty collection.
\<close>

definition activeSequence :: "SequencerState \<Rightarrow> Sequence option" where
  "activeSequence st =
     (case index (sequences st) (activeIndex st) of
        Some a \<Rightarrow> Some a
      | None \<Rightarrow> index (sequences st) 0)"

text \<open>
  \<^verbatim>\<open>addSequence\<close>.  The preset is the constant \<^verbatim>\<open>SUNFLOWER_PRESET\<close> of
  \<^verbatim>\<open>constants.ts\<close>, taken as a parameter.
\<close>

definition addSequence :: "obj \<Rightarrow> SequencerState \<Rightarrow> jserror + SequencerState" where
  "addSequence preset st =
     (let seqs = sequences st;
          newId = nextId seqs;
          activeSeq = activeSequence st;
          baseConfig = (case activeSeq of Some a \<Rightarrow> geoConfig a | None \<Rightarrow> preset);
          seqLength = getProp baseConfig ''sequenceLength''
      in case newArrayFill0 seqLength of
           Inl e \<Rightarrow> Inl e
         | Inr zeros \<Rightarrow>
             (let newSeq = \<lparr> sid = newId, name = ''Card '' @ intToString newId,
                              description = Some ''New sequence pattern'',
                              data = zeros, geoConfig = baseConfig \<rparr>;
                  newSequences = seqs @ [newSeq]
              in Inr (st\<lparr> sequences := newSequences,
                          activeIndex := int (length newSequences) - 1,
                          isPlaying := False \<rparr>)))"

definition importSequence :: "Sequence \<Rightarrow> SequencerState \<Rightarrow> SequencerState" where
  "importSequence importedSeq st =
     (let seqs = sequences st;
          newId = nextId seqs;
          newSeq = importedSeq\<lparr> sid := newId \<rparr>;
          newSequences = seqs @ [newSeq]
      in st\<lparr> sequences := newSequences,
              activeIndex := int (length newSequences) - 1,
              isPlaying := False \<rparr>)"

definition duplicateSequence :: "int \<Rightarrow> SequencerState \<Rightarrow> SequencerState" where
  "duplicateSequence i st =
     (let seqs = sequences st in
      case find (\<lambda>s. sid s = i) seqs of
        None \<Rightarrow> st
      | Some sourceSeq \<Rightarrow>
          (let newId = nextId seqs;
               newSeq = sourceSeq\<lparr> sid := newId, name := name sourceSeq @ '' (Copy)'',
                                   data := data sourceSeq, geoConfig := geoConfig sourceSeq \<rparr>;
               newSequences = seqs @ [newSeq]
           in st\<lparr> sequences := newSequences,
                   activeIndex := int (length newSequences) - 1,
                   isPlaying := False \<rparr>))"

definition deleteSequence :: "int \<Rightarrow> SequencerState \<Rightarrow> SequencerState" where
  "deleteSequence i st =
     (let seqs = sequences st in
      if length seqs \<le> 1 then st
      else
        (let idxToDelete = findIndex (\<lambda>s. sid s = i) seqs in
         if idxToDelete = -1 then st
         else
           (let newSequences = filter (\<lambda>s. sid s \<noteq> i) seqs;
                st1 = st\<lparr> sequences := newSequences \<rparr>
            in if activeIndex st \<ge> int (length newSequences)
               then st1\<lparr> activeIndex := max 0 (int (length newSequences) - 1) \<rparr>
               else if idxToDelete < activeIndex st
               then st1\<lparr> activeIndex := activeIndex st - 1 \<rparr>
               else st1)))"

text \<open>
  \<^verbatim>\<open>xs.splice(start, deleteCount, ...items)\<close> begins at \<open>spliceStart\<close>: a negative
  start counts from the end, and the result is clamped to \<open>[0, length]\<close>.
\<close>

definition spliceStart :: "'a list \<Rightarrow> int \<Rightarrow> nat" where
  "spliceStart xs start =
     (if start < 0 then nat (max (int (length xs) + start) 0)
      else min (nat start) (length xs))"

text \<open>
  \<^verbatim>\<open>reorderSequences\<close>.  Reading \<^verbatim>\<open>sequences[activeIndex].id\<close> with the index
  out of range raises TypeError.  When \<^verbatim>\<open>fromIndex\<close> is at or past the end,
  \<^verbatim>\<open>splice\<close> removes nothing and the code inserts \<^verbatim>\<open>undefined\<close> into the
  collection: that is no list of sequences, and the model reports \<open>UndefinedEntry\<close>.
\<close>

definition reorderSequences :: "int \<Rightarrow> int \<Rightarrow> SequencerState \<Rightarrow> jserror + SequencerState" where
  "reorderSequences fromIndex toIndex st =
     (if fromIndex = toIndex then Inr st
      else
        (let seqs = sequences st in
         case index seqs (activeIndex st) of
           None \<Rightarrow> Inl TypeError
         | Some active \<Rightarrow>
             (let activeId = sid active;
                  f = spliceStart seqs fromIndex
              in if f \<ge> length seqs then Inl UndefinedEntry
                 else
                   (let moved = seqs ! f;
                        rest = take f seqs @ drop (Suc f) seqs;
                        t = spliceStart rest toIndex;
                        newSequences = take t rest @ moved # drop t rest;
                        newActiveIndex = findIndex (\<lambda>s. sid s = activeId) newSequences
                    in if newActiveIndex \<noteq> -1
                       then Inr (st\<lparr> sequences := newSequences, activeIndex := newActiveIndex \<rparr>)
                       else Inr (st\<lparr> sequences := newSequences \<rparr>)))))"

section \<open>The PNG text chunk codec (utils/png.ts)\<close>

text \<open>
  A buffer is a list of bytes.  A JavaScript string is a list of 16-bit code units:
  \<^verbatim>\<open>stringToUint8\<close> stores \<^verbatim>\<open>charCodeAt(i)\<close> into a \<^verbatim>\<open>Uint8Array\<close>,
  which keeps the low eight bits, and \<^verbatim>\<open>String.fromCharCode\<close> widens bytes back.
  Offsets and lengths are JavaScript numbers holding whole values below \<open>2\<^sup>5\<^sup>3\<close>,
  here natural numbers.
\<close>

type_synonym byte = "8 word"
type_synonym jsstring = "16 word list"

definition jsString :: "string \<Rightarrow> jsstring" where
  "jsString s = map (\<lambda>c. of_nat (of_char c)) s"

text \<open>The table loop: eight times \<^verbatim>\<open>c = (c & 1) ? (0xEDB88320 ^ (c >>> 1)) : (c >>> 1)\<close>.\<close>

definition crcStep :: "32 word \<Rightarrow> 32 word" where
  "crcStep c = (if c AND 1 \<noteq> 0 then 0xEDB88320 XOR drop_bit 1 c else drop_bit 1 c)"

definition crcTable :: "nat \<Rightarrow> 32 word" where
  "crcTable i = (crcStep ^^ 8) (of_nat i)"

definition crc32 :: "byte list \<Rightarrow> 32 word" where
  "crc32 buf =
     fold (\<lambda>b crc. drop_bit 8 crc XOR crcTable (unat ((crc XOR ucast b) AND 0xFF))) buf 0xFFFFFFFF
       XOR 0xFFFFFFFF"

definition stringToUint8 :: "jsstring \<Rightarrow> byte list" where
  "stringToUint8 str = map ucast str"

text \<open>
  \<^verbatim>\<open>String.fromCharCode(...bytes)\<close> passes every byte as an argument of its own, and
  a call with more arguments than the engine accepts raises RangeError.  The largest
  number of arguments is the engine's, the parameter \<open>argLimit\<close>.
\<close>

definition fromCharCode :: "nat \<Rightarrow> byte list \<Rightarrow> jserror + jsstring" where
  "fromCharCode argLimit bs =
     (if argLimit < length bs then Inl RangeError else Inr (map ucast bs))"

text \<open>\<^verbatim>\<open>a.subarray(begin, end)\<close> for non-negative bounds, clamped to the array.\<close>

definition subarray :: "'a list \<Rightarrow> nat \<Rightarrow> nat \<Rightarrow> 'a list" where
  "subarray xs b e = take (e - b) (drop b xs)"

text \<open>\<^verbatim>\<open>view.setUint32(pos, n, false)\<close>: the four big-endian bytes of \<open>n mod 2\<^sup>3\<^sup>2\<close>.\<close>

definition u32be :: "nat \<Rightarrow> byte list" where
  "u32be n = [of_nat (n div 2 ^ 24 mod 256), of_nat (n div 2 ^ 16 mod 256),
              of_nat (n div 2 ^ 8 mod 256), of_nat (n mod 256)]"

text \<open>
  \<^verbatim>\<open>view.getUint32(offset, false)\<close> on a view of the whole buffer: RangeError unless
  four bytes are there.
\<close>

definition getUint32 :: "byte list \<Rightarrow> nat \<Rightarrow> jserror + nat" where
  "getUint32 buf offset =
     (if offset + 4 \<le> length buf
      then Inr (foldl (\<lambda>a b. a * 256 + unat b) 0 (take 4 (drop offset buf)))
      else Inl RangeError)"

text \<open>
  \<^verbatim>\<open>writePngMetadata\<close>.  The chunk goes in at byte 33.  On a buffer shorter than
  that, \<^verbatim>\<open>newPng.set(fullChunk, insertPos)\<close> does not fit and raises RangeError.
\<close>

definition writePngMetadata :: "byte list \<Rightarrow> jsstring \<Rightarrow> jsstring \<Rightarrow> jserror + byte list" where
  "writePngMetadata uint8 key val =
     (let keyArr = stringToUint8 key;
          valArr = stringToUint8 val;
          chunkData = keyArr @ [0] @ valArr;
          chunkLen = length chunkData;
          typeAndData = stringToUint8 (jsString ''tEXt'') @ chunkData;
          crcVal = crc32 typeAndData;
          fullChunk = u32be chunkLen @ typeAndData @ u32be (unat crcVal);
          insertPos = 33
      in if length uint8 < insertPos then Inl RangeError
         else Inr (subarray uint8 0 insertPos @ fullChunk @ drop insertPos uint8))"

text \<open>
  The body of a \<^verbatim>\<open>tEXt\<close> chunk: the keyword before the first zero byte, the text
  after it.  The result is the text when the keyword is the wanted one, and an exception
  when one of the two strings cannot be built.
\<close>

definition textChunkValue :: "nat \<Rightarrow> byte list \<Rightarrow> jsstring \<Rightarrow> jserror + jsstring option" where
  "textChunkValue argLimit chunkContent key =
     (let nullIndex = findIndex (\<lambda>b. b = 0) chunkContent in
      if nullIndex \<noteq> -1
      then (case fromCharCode argLimit (subarray chunkContent 0 (nat nullIndex)) of
              Inl e \<Rightarrow> Inl e
            | Inr chunkKey \<Rightarrow>
                if chunkKey = key
                then (case fromCharCode argLimit (drop (nat nullIndex + 1) chunkContent) of
                        Inl e \<Rightarrow> Inl e
                      | Inr text \<Rightarrow> Inr (Some text))
                else Inr None)
      else Inr None)"

text \<open>The \<^verbatim>\<open>while (offset < data.length)\<close> loop of \<^verbatim>\<open>readPngMetadata\<close>.\<close>

function readChunks ::
  "nat \<Rightarrow> byte list \<Rightarrow> jsstring \<Rightarrow> nat \<Rightarrow> jserror + jsstring option" where
  "readChunks argLimit buf key offset =
     (if offset < length buf then
        (case getUint32 buf offset of
           Inl e \<Rightarrow> Inl e
         | Inr len \<Rightarrow>
             (case fromCharCode argLimit (subarray buf (offset + 4) (offset + 8)) of
                Inl e \<Rightarrow> Inl e
              | Inr type \<Rightarrow>
                  (case (if type = jsString ''tEXt''
                         then textChunkValue argLimit
                                (subarray buf (offset + 8) (offset + 8 + len)) key
                         else Inr None) of
                     Inl e \<Rightarrow> Inl e
                   | Inr (Some v) \<Rightarrow> Inr (Some v)
                   | Inr None \<Rightarrow>
                       if type = jsString ''IEND'' then Inr None
                       else readChunks argLimit buf key (offset + 12 + len))))
      else Inr None)"
  by pat_completeness auto
termination
  by (relation "measure (\<lambda>(argLimit, buf, key, offset). length buf - offset)") auto

declare readChunks.simps [simp del]

definition readPngMetadata :: "nat \<Rightarrow> byte list \<Rightarrow> jsstring \<Rightarrow> jserror + jsstring option" where
  "readPngMetadata argLimit buf key = readChunks argLimit buf key 8"

text \<open>
  \<^verbatim>\<open>readPngMetadata(writePngMetadata(png, key, value), key)\<close>, reading the bytes of
  the blob that was written.
\<close>

definition readAfterWrite ::
  "nat \<Rightarrow> byte list \<Rightarrow> jsstring \<Rightarrow> jsstring \<Rightarrow> jserror + jsstring option" where
  "readAfterWrite argLimit png key val =
     (case writePngMetadata png key val of
        Inl e \<Rightarrow> Inl e
      | Inr out \<Rightarrow> readPngMetadata argLimit out key)"

text \<open>The eight signature bytes, and the smallest PNG file: a 1 x 1 image with the chunks
  \<^verbatim>\<open>IHDR\<close>, \<^verbatim>\<open>IDAT\<close> and \<^verbatim>\<open>IEND\<close>.\<close>

definition pngSignature :: "byte list" where
  "pngSignature = [0x89, 0x50, 0x4E, 0x47, 0x0D, 0x0A, 0x1A, 0x0A]"

definition minimalPng :: "byte list" where
  "minimalPng = pngSignature @
     [0x00, 0x00, 0x00, 0x0D, 0x49, 0x48, 0x44, 0x52,
      0x00, 0x00, 0x00, 0x01, 0x00, 0x00, 0x00, 0x01, 0x08, 0x06, 0x00, 0x00, 0x00,
      0x1F, 0x15, 0xC4, 0x89,
      0x00, 0x00, 0x00, 0x0A, 0x49, 0x44, 0x41, 0x54,
      0x78, 0x9C, 0x63, 0x00, 0x01, 0x00, 0x00, 0x05, 0x00, 0x01,
      0x0D, 0x0A, 0x2D, 0xB4,
      0x00, 0x00, 0x00, 0x00, 0x49, 0x45, 0x4E, 0x44,
      0xAE, 0x42, 0x60, 0x82]"

section \<open>The configuration codec (utils/compression.ts)\<close>

text \<open>The alias table, in the order of the source.\<close>

definition GEO_KEY_MAP :: "(string \<times> string) list" where
  "GEO_KEY_MAP =
     [(''showFrame'', ''a''), (''frameDoubleTop'', ''b''), (''frameScale'', ''c''),
      (''frameHeaderOffset'', ''d''), (''frameTickLength'', ''e''), (''frameStrokeWidth'', ''f''),
      (''uiFontSize'', ''g''), (''overallScale'', ''h''), (''mainScale'', ''M''),
      (''petals'', ''i''), (''petalSize'', ''j''), (''petalRoundness'', ''k''),
      (''lobeCount'', ''l''), (''lobeRadius'', ''m''), (''lobeType'', ''n''),
      (''lobeDesign'', ''L''), (''designScale'', ''S''), (''designOffset'', ''O''),
      (''centerDesign'', ''K''), (''lobeOpacity'', ''E''), (''centerOpacity'', ''F''),
      (''geometryRotation'', ''R''), (''dharmaExtrusionOut'', ''o''),
      (''dharmaExtrusionSide'', ''p''), (''dharmaStemWidth'', ''q''),
      (''dharmaCapHeight'', ''r''), (''ringInnerRadius'', ''s''), (''stripeSep'', ''t''),
      (''stripeStart'', ''u''), (''hullValley'', ''v''), (''hullCoverage'', ''w''),
      (''sequenceLength'', ''x''), (''shellScale'', ''y''), (''shellStroke'', ''z''),
      (''ringStroke'', ''A''), (''stripeStroke'', ''B''), (''uiFont'', ''C''),
      (''frameSquareHeader'', ''H'')]"

text \<open>
  \<^verbatim>\<open>Object.entries(GEO_KEY_MAP).reduce((acc, [k, v]) => ({...acc, [v]: k}), {})\<close>.
  The table is read with \<^verbatim>\<open>REV_GEO_KEY_MAP[shortKey]\<close>; only its own keys are
  modelled (a name inherited from \<^verbatim>\<open>Object.prototype\<close>, such as
  \<^verbatim>\<open>constructor\<close>, is no alias and \<^verbatim>\<open>compressConfig\<close> never writes one).
\<close>

definition REV_GEO_KEY_MAP :: "(string \<times> string) list" where
  "REV_GEO_KEY_MAP = fold (\<lambda>(k, v) acc. AList.update v k acc) GEO_KEY_MAP []"

text \<open>\<^verbatim>\<open>Math.round\<close>: to the nearest integer, a tie going up.\<close>

definition mathRound :: "rat \<Rightarrow> int" where
  "mathRound x = \<lfloor>x + 1 / 2\<rfloor>"

text \<open>
  \<^verbatim>\<open>parseFloat(val.toFixed(3))\<close>: \<^verbatim>\<open>toFixed\<close> takes the sign off, picks the
  integer \<open>n\<close> with \<open>n / 1000\<close> nearest to the magnitude (the larger of two), and
  prints the number itself from \<open>10\<^sup>2\<^sup>1\<close> on.  Numbers are exact rationals here, so a
  decimal such as 1.0005 is a tie, where the double nearest to it lies just below.  The
  properties proved of the codec do not depend on which way such a value is rounded.
\<close>

definition toFixed3 :: "rat \<Rightarrow> rat" where
  "toFixed3 x =
     (if \<bar>x\<bar> \<ge> 10 ^ 21 then x
      else if x < 0 then - (of_int \<lfloor>(- x) * 1000 + 1 / 2\<rfloor> / 1000)
      else of_int \<lfloor>x * 1000 + 1 / 2\<rfloor> / 1000)"

fun smartRound :: "jsval \<Rightarrow> jsval" where
  "smartRound (JNum x) =
     (if \<bar>x - of_int (mathRound x)\<bar> < 1 / 10000 then JNum (of_int (mathRound x))
      else JNum (toFixed3 x))"
| "smartRound v = v"

definition minifyGeoDiff :: "obj \<Rightarrow> obj \<Rightarrow> obj" where
  "minifyGeoDiff target baseline =
     fold (\<lambda>(key, short) minGeo.
             (let targetVal = getProp target key;
                  baseVal = getProp baseline key;
                  rTarget = smartRound targetVal;
                  rBase = smartRound baseVal
              in if \<not> strictEq rTarget rBase then AList.update short rTarget minGeo else minGeo))
          GEO_KEY_MAP []"

text \<open>
  The own enumerable properties of a value, in \<^verbatim>\<open>for ... in\<close> order: the entries of
  an object, the indexed elements of an array, the indexed characters of a string.
\<close>

fun ownEntries :: "jsval \<Rightarrow> obj" where
  "ownEntries (JObj kvs) = kvs"
| "ownEntries (JArr xs) = zip (map natToString [0..<length xs]) xs"
| "ownEntries (JStr s) = zip (map natToString [0..<length s]) (map (\<lambda>c. JStr [c]) s)"
| "ownEntries v = []"

text \<open>
  \<^verbatim>\<open>v.k\<close> and \<^verbatim>\<open>v[k]\<close> for the keys the codec reads (\<open>t\<close>, \<open>v\<close>,
  \<open>G\<close>, \<open>s\<close>, \<open>g\<close>, \<open>D\<close>, \<open>i\<close>, \<open>n\<close>, \<open>d\<close> and the keys that
  \<^verbatim>\<open>for ... in\<close> gives).  Reading a property of \<^verbatim>\<open>null\<close> or
  \<^verbatim>\<open>undefined\<close> raises TypeError, which \<open>isNullish\<close> tests before
  \<open>getMember\<close> is used.
\<close>

definition getMember :: "jsval \<Rightarrow> string \<Rightarrow> jsval" where
  "getMember v k = getProp (ownEntries v) k"

fun isNullish :: "jsval \<Rightarrow> bool" where
  "isNullish JUndefined = True"
| "isNullish JNull = True"
| "isNullish v = False"

definition inflateGeoDiff :: "jsval \<Rightarrow> obj \<Rightarrow> obj" where
  "inflateGeoDiff minDiff baseline =
     (if \<not> truthy minDiff then baseline
      else fold (\<lambda>shortKey newGeo.
                   (case map_of REV_GEO_KEY_MAP shortKey of
                      Some fullKey \<Rightarrow> AList.update fullKey (getMember minDiff shortKey) newGeo
                    | None \<Rightarrow> newGeo))
                (map fst (ownEntries minDiff)) baseline)"

definition inflateGeoLegacy :: "obj \<Rightarrow> jsval \<Rightarrow> obj" where
  "inflateGeoLegacy preset minGeo =
     fold (\<lambda>key geo.
             (case map_of REV_GEO_KEY_MAP key of
                Some fullKey \<Rightarrow> AList.update fullKey (getMember minGeo key) geo
              | None \<Rightarrow> AList.update key (getMember minGeo key) geo))
          (map fst (ownEntries minGeo)) preset"

text \<open>The callback of \<^verbatim>\<open>sequences.map\<close> in \<^verbatim>\<open>compressConfig\<close>.\<close>

definition minifySequence :: "obj \<Rightarrow> Sequence \<Rightarrow> jsval" where
  "minifySequence globalBase s =
     (let seqDiff = minifyGeoDiff (geoConfig s) globalBase;
          seqObj = [(''i'', JNum (of_int (sid s))), (''n'', JStr (name s)),
                    (''D'', JStr (concat (map intToString (data s))))];
          seqObj1 = (case description s of
                       Some d \<Rightarrow> if d \<noteq> [] then AList.update ''d'' (JStr d) seqObj else seqObj
                     | None \<Rightarrow> seqObj);
          seqObj2 = (if length seqDiff > 0 then AList.update ''g'' (JObj seqDiff) seqObj1
                     else seqObj1)
      in JObj seqObj2)"

text \<open>
  The object that \<^verbatim>\<open>compressConfig\<close> serialises.  \<^verbatim>\<open>timingMs\<close> has the
  default 1500 when the argument is left out.  \<^verbatim>\<open>SUNFLOWER_PRESET\<close> is a constant of
  \<^verbatim>\<open>constants.ts\<close>, taken as a parameter.
\<close>

definition compressPayload :: "obj \<Rightarrow> obj \<Rightarrow> Sequence list \<Rightarrow> rat option \<Rightarrow> jsval" where
  "compressPayload preset geo seqs timing =
     (let globalBase = geo;
          minGlobalGeo = minifyGeoDiff globalBase preset;
          minSequences = map (minifySequence globalBase) seqs
      in JObj [(''v'', JNum 4),
               (''t'', JNum (case timing of Some t \<Rightarrow> t | None \<Rightarrow> 1500)),
               (''G'', JObj minGlobalGeo),
               (''s'', JArr minSequences)])"

text \<open>
  \<^verbatim>\<open>compressConfig\<close>.  The text layer
  \<^verbatim>\<open>btoa(unescape(encodeURIComponent(JSON.stringify(payload))))\<close> is the platform's; it is
  the parameter \<open>textEncode\<close>.
\<close>

definition compressConfig ::
  "(jsval \<Rightarrow> string) \<Rightarrow> obj \<Rightarrow> obj \<Rightarrow> Sequence list \<Rightarrow> rat option \<Rightarrow> string" where
  "compressConfig textEncode preset geo seqs timing =
     textEncode (compressPayload preset geo seqs timing)"

text \<open>
  What \<^verbatim>\<open>decompressConfig\<close> builds.  The fields take whatever the token holds, so they
  are plain values.
\<close>

record RawSequence =
  rawId :: jsval
  rawName :: jsval
  rawDescription :: jsval
  rawData :: "jsval list"
  rawGeoConfig :: obj

record Decoded =
  decGeoConfig :: obj
  decSequences :: "RawSequence list"
  decTimingMs :: jsval

text \<open>\<^verbatim>\<open>parseInt(c, 10)\<close> and \<^verbatim>\<open>Number(c)\<close> on a string of one character.\<close>

definition parseIntChar :: "char \<Rightarrow> jsval" where
  "parseIntChar c =
     (let n = (of_char c :: nat) in
      if 48 \<le> n \<and> n \<le> 57 then JNum (of_nat (n - 48)) else JNaN)"

definition numberChar :: "char \<Rightarrow> jsval" where
  "numberChar c =
     (let n = (of_char c :: nat) in
      if 48 \<le> n \<and> n \<le> 57 then JNum (of_nat (n - 48))
      else if n \<in> {9, 10, 11, 12, 13, 32, 160} then JNum 0
      else JNaN)"

text \<open>\<^verbatim>\<open>a || b\<close>\<close>

definition orElse :: "jsval \<Rightarrow> jsval \<Rightarrow> jsval" where
  "orElse a b = (if truthy a then a else b)"

text \<open>
  The two ways \<^verbatim>\<open>s.D\<close> is read: versions 4, 3 and 2 try the string first and use
  \<^verbatim>\<open>parseInt\<close>; version 1 tries the array first and uses \<^verbatim>\<open>Number\<close>.
\<close>

definition decodeData :: "jsval \<Rightarrow> jsval list" where
  "decodeData D =
     (case D of
        JStr str \<Rightarrow> map parseIntChar str
      | JArr xs \<Rightarrow> xs
      | _ \<Rightarrow> [])"

definition decodeDataV1 :: "jsval \<Rightarrow> jsval list" where
  "decodeDataV1 D =
     (case D of
        JArr xs \<Rightarrow> xs
      | JStr str \<Rightarrow> map numberChar str
      | _ \<Rightarrow> [])"

text \<open>
  The callbacks of \<^verbatim>\<open>payload.s.map\<close>.  \<open>rnd\<close> is what \<^verbatim>\<open>Math.random()\<close>
  returns for this element.  An element that is \<^verbatim>\<open>null\<close> raises TypeError at the
  first property read.
\<close>

definition decodeSeqV4 :: "rat \<Rightarrow> obj \<Rightarrow> jsval \<Rightarrow> jserror + RawSequence" where
  "decodeSeqV4 rnd globalBase s =
     (if isNullish s then Inl TypeError
      else
        (let seqGeo = (if truthy (getMember s ''g'')
                       then inflateGeoDiff (getMember s ''g'') globalBase
                       else globalBase);
             dat = decodeData (getMember s ''D'')
         in Inr \<lparr> rawId = orElse (getMember s ''i'') (JNum rnd),
                   rawName = orElse (getMember s ''n'') (JStr ''Sequence''),
                   rawDescription = orElse (getMember s ''d'') (JStr []),
                   rawData = dat,
                   rawGeoConfig = seqGeo \<rparr>))"

definition decodeSeqLegacy :: "obj \<Rightarrow> rat \<Rightarrow> jsval \<Rightarrow> jserror + RawSequence" where
  "decodeSeqLegacy preset rnd s =
     (if isNullish s then Inl TypeError
      else
        (let dat = decodeData (getMember s ''D'')
         in Inr \<lparr> rawId = orElse (getMember s ''i'') (JNum rnd),
                   rawName = orElse (getMember s ''n'') (JStr ''Sequence''),
                   rawDescription = orElse (getMember s ''d'') (JStr []),
                   rawData = dat,
                   rawGeoConfig = inflateGeoLegacy preset (getMember s ''g'') \<rparr>))"

definition decodeSeqV1 :: "rat \<Rightarrow> obj \<Rightarrow> jsval \<Rightarrow> jserror + RawSequence" where
  "decodeSeqV1 rnd globalGeo s =
     (if isNullish s then Inl TypeError
      else
        (let dat = decodeDataV1 (getMember s ''D'')
         in Inr \<lparr> rawId = orElse (getMember s ''i'') (JNum rnd),
                   rawName = orElse (getMember s ''n'') (JStr ''Sequence''),
                   rawDescription = orElse (getMember s ''d'') (JStr []),
                   rawData = dat,
                   rawGeoConfig = globalGeo \<rparr>))"

text \<open>\<^verbatim>\<open>xs.map(f)\<close> with a callback that may raise: the first error ends the map.\<close>

fun mapResult :: "('x \<Rightarrow> jserror + 'y) \<Rightarrow> 'x list \<Rightarrow> jserror + 'y list" where
  "mapResult f [] = Inr []"
| "mapResult f (x # xs) =
     (case f x of
        Inl e \<Rightarrow> Inl e
      | Inr y \<Rightarrow> (case mapResult f xs of Inl e \<Rightarrow> Inl e | Inr ys \<Rightarrow> Inr (y # ys)))"

text \<open>\<^verbatim>\<open>Array.isArray(v)\<close>, and the elements of a value that is an array.\<close>

fun isArray :: "jsval \<Rightarrow> bool" where
  "isArray (JArr xs) = True"
| "isArray v = False"

fun arrayItems :: "jsval \<Rightarrow> jsval list" where
  "arrayItems (JArr xs) = xs"
| "arrayItems v = []"

text \<open>
  The body of the \<^verbatim>\<open>try\<close> block after \<^verbatim>\<open>JSON.parse\<close>: \<open>Inl\<close> is an
  exception, \<open>Inr None\<close> the \<^verbatim>\<open>return null\<close> at its end.  \<open>rnd i\<close> is the
  value of \<^verbatim>\<open>Math.random()\<close> for the element at position \<open>i\<close>.  In version 4,
  \<^verbatim>\<open>payload.s.map\<close> raises TypeError unless \<^verbatim>\<open>payload.s\<close> is an array.
\<close>

definition decompressBody :: "(nat \<Rightarrow> rat) \<Rightarrow> obj \<Rightarrow> jsval \<Rightarrow> jserror + Decoded option" where
  "decompressBody rnd preset payload =
     (if isNullish payload then Inl TypeError
      else
        (let timing = getMember payload ''t'';
             ver = getMember payload ''v'';
             ps = getMember payload ''s''
         in if strictEq ver (JNum 4) then
              (let globalBase = inflateGeoDiff (getMember payload ''G'') preset in
               case ps of
                 JArr items \<Rightarrow>
                   (case mapResult (\<lambda>(i, s). decodeSeqV4 (rnd i) globalBase s) (enumerate 0 items) of
                      Inl e \<Rightarrow> Inl e
                    | Inr seqs \<Rightarrow>
                        Inr (Some \<lparr> decGeoConfig = globalBase, decSequences = seqs,
                                      decTimingMs = timing \<rparr>))
               | _ \<Rightarrow> Inl TypeError)
            else if (strictEq ver (JNum 3) \<or> strictEq ver (JNum 2)) \<and> isArray ps then
              (case mapResult (\<lambda>(i, s). decodeSeqLegacy preset (rnd i) s)
                      (enumerate 0 (arrayItems ps)) of
                 Inl e \<Rightarrow> Inl e
               | Inr seqs \<Rightarrow>
                   Inr (Some \<lparr> decGeoConfig = (case seqs of [] \<Rightarrow> [] | s0 # rest \<Rightarrow> rawGeoConfig s0),
                                 decSequences = seqs, decTimingMs = timing \<rparr>))
            else if truthy (getMember payload ''g'') then
              (let globalGeo = inflateGeoLegacy preset (getMember payload ''g'') in
               if truthy ps \<and> isArray ps then
                 (case mapResult (\<lambda>(i, s). decodeSeqV1 (rnd i) globalGeo s)
                         (enumerate 0 (arrayItems ps)) of
                    Inl e \<Rightarrow> Inl e
                  | Inr seqs \<Rightarrow>
                      Inr (Some \<lparr> decGeoConfig = globalGeo, decSequences = seqs,
                                    decTimingMs = timing \<rparr>))
               else Inr (Some \<lparr> decGeoConfig = globalGeo, decSequences = [],
                                  decTimingMs = timing \<rparr>))
            else Inr None))"

text \<open>
  \<^verbatim>\<open>decompressConfig\<close>.  \<open>textDecode\<close> is the platform's
  \<^verbatim>\<open>JSON.parse(decodeURIComponent(escape(atob(encoded))))\<close>, \<open>None\<close> when one of the
  three raises.  The \<^verbatim>\<open>catch\<close> turns every exception of the body into
  \<^verbatim>\<open>null\<close>; the result is \<open>Inr\<close>, a normal return.
\<close>

definition decompressConfig ::
  "(string \<Rightarrow> jsval option) \<Rightarrow> (nat \<Rightarrow> rat) \<Rightarrow> obj \<Rightarrow> string \<Rightarrow> jserror + Decoded option" where
  "decompressConfig textDecode rnd preset encoded =
     (case (case textDecode encoded of
              None \<Rightarrow> Inl TypeError
            | Some payload \<Rightarrow> decompressBody rnd preset payload) of
        Inl e \<Rightarrow> Inr None
      | Inr r \<Rightarrow> Inr r)"

section \<open>Double-precision arithmetic\<close>

text \<open>
  A JavaScript number is an IEEE 754 binary64 value, and \<^verbatim>\<open>/\<close>, \<^verbatim>\<open>*\<close> and
  \<^verbatim>\<open>+\<close> return the representable value nearest to the exact result, a tie going to
  the even significand.  The video assembly loop depends on it: it rounds a product to
  count frames and accumulates a timestamp.  A finite double is kept as the rational it
  denotes, and \<open>double x\<close> is the double nearest to the exact result \<open>x\<close>: the
  nearest multiple of \<open>2\<^sup>e\<close>, where \<open>e\<close> is the exponent of the last of the 53
  significant bits of \<open>x\<close>, and \<open>-1074\<close> in the subnormal range.  \<open>floorLog2 x\<close>
  is the exponent of the first bit of a positive \<open>x\<close>.  Results from
  \<open>2\<^sup>1\<^sup>0\<^sup>2\<^sup>4\<close> on, where the machine gives \<^verbatim>\<open>Infinity\<close>, have no rational
  and are not modelled; the bound on the number of frames in the theorem on
  \<^verbatim>\<open>exportVideo\<close> keeps every result of the function far below.
\<close>

definition floorLog2 :: "rat \<Rightarrow> int" where
  "floorLog2 x =
     (let (p, q) = quotient_of x;
          d = int (floorlog 2 (nat p)) - int (floorlog 2 (nat q))
      in if 2 powi d \<le> x then d else d - 1)"

definition roundHalfEven :: "rat \<Rightarrow> int" where
  "roundHalfEven y =
     (let r = \<lfloor>y\<rfloor>; frac = y - of_int r
      in if frac < 1 / 2 then r
         else if 1 / 2 < frac then r + 1
         else if even r then r else r + 1)"

definition double :: "rat \<Rightarrow> rat" where
  "double x =
     (if x = 0 then 0
      else (let e = max (floorLog2 \<bar>x\<bar> - 52) (- 1074)
            in of_int (roundHalfEven (x / 2 powi e)) * 2 powi e))"

section \<open>The video assembly loop (hooks/useVideoExport.ts)\<close>

text \<open>
  \<^verbatim>\<open>exportVideo\<close> awaits the encoder library and the caller's \<^verbatim>\<open>renderFrame\<close> one
  call after the other.  What lies outside the function is a record of answers: whether a
  codec is found, whether \<^verbatim>\<open>output.start()\<close> resolves, whether the abort signal is set
  when a scene is about to begin, whether \<^verbatim>\<open>renderFrame\<close> and
  \<^verbatim>\<open>canvasSource.add\<close> resolve for the frame with a given global index, whether
  \<^verbatim>\<open>output.finalize()\<close> resolves and whether the target then has a buffer.  A
  rejected promise is an exception, which the \<^verbatim>\<open>catch\<close> turns into the result
  \<^verbatim>\<open>null\<close> with an error message.  \<^verbatim>\<open>timingMs\<close> is a finite double, and every
  division, product and sum of the function is rounded by \<open>double\<close>.  The loop counters
  are whole numbers, on which \<^verbatim>\<open>++\<close> is exact below \<open>2\<^sup>5\<^sup>3\<close>.
\<close>

record Platform =
  codecFound :: bool
  outputStarts :: bool
  abortedBefore :: "nat \<Rightarrow> bool"
  renderResolves :: "nat \<Rightarrow> bool"
  addResolves :: "nat \<Rightarrow> bool"
  finalizes :: bool
  hasBuffer :: bool

text \<open>One call \<^verbatim>\<open>canvasSource.add(currentTimestamp, frameDuration)\<close>, after
  \<^verbatim>\<open>renderFrame(sequences[sceneIndex], canvas, frameInScene, framesPerScene)\<close>.\<close>

record SubmittedFrame =
  scene :: nat
  frameInScene :: nat
  timestamp :: rat
  duration :: rat

record ExportState =
  currentTimestamp :: rat
  globalFrameIndex :: nat
  submitted :: "SubmittedFrame list"
  progress :: rat

datatype ExportResult = NoSequences | Cancelled | Failed | Exported

definition framerate :: rat where
  "framerate = 30"

text \<open>\<^verbatim>\<open>1 / framerate\<close>: the double nearest to one thirtieth.\<close>

definition frameDuration :: rat where
  "frameDuration = double (1 / framerate)"

text \<open>\<^verbatim>\<open>Math.round(sceneDuration * framerate)\<close> with \<^verbatim>\<open>sceneDuration = timingMs / 1000\<close>:
  the quotient is rounded to a double, then the product, and \<^verbatim>\<open>Math.round\<close> is
  applied to that double.\<close>

definition framesPerScene :: "rat \<Rightarrow> int" where
  "framesPerScene timing =
     (let sceneDuration = double (timing / 1000)
      in mathRound (double (sceneDuration * framerate)))"

text \<open>
  The inner loop \<^verbatim>\<open>for (frameInScene = 0; frameInScene < framesPerScene; frameInScene++)\<close>,
  from the frame \<open>f\<close> on.  \<open>None\<close> is an exception.  The progress is
  \<^verbatim>\<open>10 + ((globalFrameIndex / (totalScenes * framesPerScene)) * 85)\<close>, and the timestamp
  moves on by \<^verbatim>\<open>currentTimestamp += frameDuration\<close>.
\<close>

function renderScene ::
  "Platform \<Rightarrow> nat \<Rightarrow> int \<Rightarrow> nat \<Rightarrow> nat \<Rightarrow> ExportState \<Rightarrow> ExportState option" where
  "renderScene pf totalScenes fps sceneIndex f st =
     (if int f < fps then
        (let st1 = st\<lparr> progress :=
                      double (10 + double (double (of_nat (globalFrameIndex st) /
                                                    double (of_nat totalScenes * of_int fps)) * 85)) \<rparr>
         in if \<not> renderResolves pf (globalFrameIndex st1) then None
            else if \<not> addResolves pf (globalFrameIndex st1) then None
            else renderScene pf totalScenes fps sceneIndex (Suc f)
                   (st1\<lparr> submitted := submitted st1 @
                                         [\<lparr> scene = sceneIndex, frameInScene = f,
                                            timestamp = currentTimestamp st1,
                                            duration = frameDuration \<rparr>],
                          currentTimestamp := double (currentTimestamp st1 + frameDuration),
                          globalFrameIndex := Suc (globalFrameIndex st1) \<rparr>))
      else Some st)"
  by pat_completeness auto
termination
  by (relation "measure (\<lambda>(pf, totalScenes, fps, sceneIndex, f, st). nat fps - f)") auto

declare renderScene.simps [simp del]

text \<open>
  The outer loop \<^verbatim>\<open>for (sceneIndex = 0; sceneIndex < sequences.length; sceneIndex++)\<close>,
  from the scene \<open>sceneIndex\<close> on: the abort signal is looked at before each scene.
\<close>

function exportScenes ::
  "Platform \<Rightarrow> nat \<Rightarrow> int \<Rightarrow> nat \<Rightarrow> ExportState \<Rightarrow> ExportResult \<times> ExportState" where
  "exportScenes pf totalScenes fps sceneIndex st =
     (if sceneIndex < totalScenes then
        (if abortedBefore pf sceneIndex then (Cancelled, st)
         else (case renderScene pf totalScenes fps sceneIndex 0 st of
                 None \<Rightarrow> (Failed, st)
               | Some st' \<Rightarrow> exportScenes pf totalScenes fps (Suc sceneIndex) st'))
      else (Exported, st))"
  by pat_completeness auto
termination
  by (relation "measure (\<lambda>(pf, totalScenes, fps, sceneIndex, st). totalScenes - sceneIndex)") auto

declare exportScenes.simps [simp del]

text \<open>
  \<^verbatim>\<open>exportVideo\<close>: the result (\<open>Exported\<close> for the blob, the other three for
  \<^verbatim>\<open>null\<close> with its error message) and the frames that were submitted.
\<close>

definition exportVideo :: "Platform \<Rightarrow> Sequence list \<Rightarrow> rat \<Rightarrow> ExportResult \<times> ExportState" where
  "exportVideo pf seqs timing =
     (let st0 = \<lparr> currentTimestamp = 0, globalFrameIndex = 0, submitted = [], progress = 0 \<rparr> in
      if length seqs = 0 then (NoSequences, st0)
      else
        (let fps = framesPerScene timing;
             st5 = st0\<lparr> progress := 5 \<rparr>
         in if \<not> codecFound pf then (Failed, st5)
            else if \<not> outputStarts pf then (Failed, st5)
            else
              (case exportScenes pf (length seqs) fps 0 (st5\<lparr> progress := 10 \<rparr>) of
                 (Exported, st) \<Rightarrow>
                   (if \<not> finalizes pf then (Failed, st\<lparr> progress := 95 \<rparr>)
                    else if \<not> hasBuffer pf then (Failed, st\<lparr> progress := 100 \<rparr>)
                    else (Exported, st\<lparr> progress := 100 \<rparr>))
               | (res, st) \<Rightarrow> (res, st))))"

text \<open>
  The value of \<^verbatim>\<open>currentTimestamp\<close> after \<open>k\<close> frames: \<open>k\<close> rounded additions
  of \<open>frameDuration\<close> to zero.
\<close>

definition tick :: "rat \<Rightarrow> rat" where
  "tick t = double (t + frameDuration)"

definition timestampAfter :: "nat \<Rightarrow> rat" where
  "timestampAfter k = (tick ^^ k) 0"

text \<open>
  What holds of the export state when the scenes before \<open>s\<close> have been rendered with
  \<open>n\<close> frames each: the loop invariant used in the proofs.
\<close>

definition scenesDone :: "nat \<Rightarrow> nat \<Rightarrow> ExportState \<Rightarrow> bool" where
  "scenesDone n s st \<longleftrightarrow>
     length (submitted st) = s * n \<and>
     globalFrameIndex st = s * n \<and>
     currentTimestamp st = timestampAfter (s * n) \<and>
     (\<forall>k. k < s * n \<longrightarrow>
        timestamp (submitted st ! k) = timestampAfter k \<and>
        duration (submitted st ! k) = frameDuration) \<and>
     (\<forall>s'. length (filter (\<lambda>f. scene f = s') (submitted st)) = (if s' < s then n else 0))"

text \<open>A platform on which nothing fails and nobody cancels.\<close>

definition willingPlatform :: Platform where
  "willingPlatform = \<lparr> codecFound = True, outputStarts = True, abortedBefore = (\<lambda>i. False),
                        renderResolves = (\<lambda>g. True), addResolves = (\<lambda>g. True),
                        finalizes = True, hasBuffer = True \<rparr>"

text \<open>
  The values a field of \<^verbatim>\<open>GeoConfig\<close> can hold by its interface: a number, a boolean
  or a string.
\<close>

fun isGeoValue :: "jsval \<Rightarrow> bool" where
  "isGeoValue (JNum x) = True"
| "isGeoValue (JBool b) = True"
| "isGeoValue (JStr s) = True"
| "isGeoValue v = False"

text \<open>
  Configurations to run the codec on: a preset with every field, an active
  configuration that changes \<open>petalSize\<close>, and two items, the second of which
  changes \<open>petals\<close> as well.
\<close>

definition examplePreset :: obj where
  "examplePreset =
     AList.update ''lobeType'' (JStr ''sunflower'')
       (AList.update ''showFrame'' (JBool True) (map (\<lambda>(key, short). (key, JNum 1)) GEO_KEY_MAP))"

definition exampleGeo :: obj where
  "exampleGeo = AList.update ''petalSize'' (JNum (1 / 3)) examplePreset"

definition exampleItems :: "Sequence list" where
  "exampleItems =
     [\<lparr> sid = 1, name = ''Card 1'', description = None, data = [0, 1, 0, 3],
        geoConfig = exampleGeo \<rparr>,
      \<lparr> sid = 2, name = ''Card 2'', description = Some ''second'', data = [9, 0, 2],
        geoConfig = AList.update ''petals'' (JNum 7) exampleGeo \<rparr>]"

text \<open>
  A text layer to run the codec on.  It stands for \<^verbatim>\<open>JSON.stringify\<close> with
  \<^verbatim>\<open>btoa\<close>, and for \<^verbatim>\<open>atob\<close> with \<^verbatim>\<open>JSON.parse\<close>: a value is written
  in prefix notation, a number as its numerator and denominator in decimal, a string
  after its length, an array and an object after the number of their elements.
\<close>

definition exampleEncodeNat :: "nat \<Rightarrow> string" where
  "exampleEncodeNat n = natToString n @ '';''"

primrec exampleEncodeValue :: "jsval \<Rightarrow> string" where
  "exampleEncodeValue JUndefined = ''u''"
| "exampleEncodeValue JNull = ''n''"
| "exampleEncodeValue (JBool b) = (if b then ''t'' else ''f'')"
| "exampleEncodeValue (JNum x) =
     (let (p, q) = quotient_of x
      in (if p < 0 then ''-'' else ''+'') @ exampleEncodeNat (nat \<bar>p\<bar>) @ exampleEncodeNat (nat q))"
| "exampleEncodeValue JNaN = ''x''"
| "exampleEncodeValue (JStr s) = ''s'' @ exampleEncodeNat (length s) @ s"
| "exampleEncodeValue (JArr xs) = ''a'' @ exampleEncodeNat (length xs) @ concat (map exampleEncodeValue xs)"
| "exampleEncodeValue (JObj kvs) =
     ''o'' @ exampleEncodeNat (length kvs) @
     concat (map (\<lambda>kv. exampleEncodeNat (length (fst kv)) @ fst kv @ snd kv)
               (map (map_prod id exampleEncodeValue) kvs))"

definition exampleEncode :: "jsval \<Rightarrow> string" where
  "exampleEncode payload = exampleEncodeValue payload"

text \<open>
  The reader parses the text it is given and knows nothing of what was written.  A
  decimal numeral ends at its semicolon; \<open>exampleDecodeMany\<close> reads a given number
  of elements one after the other; the first argument of \<open>exampleDecodeValue\<close>
  bounds the depth of nesting, and the text itself is long enough for that.
\<close>

fun exampleDecodeDigits :: "nat \<Rightarrow> string \<Rightarrow> (nat \<times> string) option" where
  "exampleDecodeDigits acc [] = None"
| "exampleDecodeDigits acc (c # s) =
     (if c = CHR '';'' then Some (acc, s)
      else (let d = (of_char c :: nat) in
            if 48 \<le> d \<and> d \<le> 57 then exampleDecodeDigits (acc * 10 + (d - 48)) s else None))"

definition exampleDecodeNat :: "string \<Rightarrow> (nat \<times> string) option" where
  "exampleDecodeNat s =
     (case s of
        [] \<Rightarrow> None
      | c # r \<Rightarrow> if c = CHR '';'' then None else exampleDecodeDigits 0 s)"

definition exampleDecodeText :: "string \<Rightarrow> (string \<times> string) option" where
  "exampleDecodeText s =
     (case exampleDecodeNat s of
        None \<Rightarrow> None
      | Some (n, r) \<Rightarrow> if length r < n then None else Some (take n r, drop n r))"

definition exampleDecodeNumber :: "bool \<Rightarrow> string \<Rightarrow> (jsval \<times> string) option" where
  "exampleDecodeNumber negative s =
     (case exampleDecodeNat s of
        None \<Rightarrow> None
      | Some (p, r) \<Rightarrow>
          (case exampleDecodeNat r of
             None \<Rightarrow> None
           | Some (q, r') \<Rightarrow>
               if q = 0 then None
               else Some (JNum ((if negative then - of_nat p else of_nat p) / of_nat q), r')))"

fun exampleDecodeMany ::
  "(string \<Rightarrow> ('a \<times> string) option) \<Rightarrow> nat \<Rightarrow> string \<Rightarrow> ('a list \<times> string) option" where
  "exampleDecodeMany dec n s =
     (if n = 0 then Some ([], s)
      else (case dec s of
              None \<Rightarrow> None
            | Some (x, r) \<Rightarrow>
                (case exampleDecodeMany dec (n - 1) r of
                   None \<Rightarrow> None
                 | Some (xs, r') \<Rightarrow> Some (x # xs, r'))))"

declare exampleDecodeMany.simps [simp del]

primrec exampleDecodeValue :: "string \<Rightarrow> string \<Rightarrow> (jsval \<times> string) option" where
  "exampleDecodeValue [] s = None"
| "exampleDecodeValue (f # fuel) s =
     (case s of
        [] \<Rightarrow> None
      | c # r \<Rightarrow>
          if c = CHR ''u'' then Some (JUndefined, r)
          else if c = CHR ''n'' then Some (JNull, r)
          else if c = CHR ''t'' then Some (JBool True, r)
          else if c = CHR ''f'' then Some (JBool False, r)
          else if c = CHR ''x'' then Some (JNaN, r)
          else if c = CHR ''+'' then exampleDecodeNumber False r
          else if c = CHR ''-'' then exampleDecodeNumber True r
          else if c = CHR ''s'' then
            (case exampleDecodeText r of None \<Rightarrow> None | Some (str, r') \<Rightarrow> Some (JStr str, r'))
          else if c = CHR ''a'' then
            (case exampleDecodeNat r of
               None \<Rightarrow> None
             | Some (n, r') \<Rightarrow>
                 (case exampleDecodeMany (exampleDecodeValue fuel) n r' of
                    None \<Rightarrow> None
                  | Some (xs, r'') \<Rightarrow> Some (JArr xs, r'')))
          else if c = CHR ''o'' then
            (case exampleDecodeNat r of
               None \<Rightarrow> None
             | Some (n, r') \<Rightarrow>
                 (case exampleDecodeMany
                         (\<lambda>t. case exampleDecodeText t of
                                 None \<Rightarrow> None
                               | Some (k, t') \<Rightarrow>
                                   (case exampleDecodeValue fuel t' of
                                      None \<Rightarrow> None
                                    | Some (v, t'') \<Rightarrow> Some ((k, v), t'')))
                         n r' of
                    None \<Rightarrow> None
                  | Some (kvs, r'') \<Rightarrow> Some (JObj kvs, r'')))
          else None)"

definition exampleDecode :: "string \<Rightarrow> jsval option" where
  "exampleDecode encoded =
     (case exampleDecodeValue encoded encoded of
        Some (payload, []) \<Rightarrow> Some payload
      | _ \<Rightarrow> None)"

text \<open>A small collection to run the operations on.\<close>

definition exampleSeq :: "int \<Rightarrow> Sequence" where
  "exampleSeq i = \<lparr> sid = i, name = ''Card'', description = None, data = [0, 1, 2],
                    geoConfig = [(''sequenceLength'', JNum 3)] \<rparr>"

definition exampleState :: "int list \<Rightarrow> int \<Rightarrow> SequencerState" where
  "exampleState ids a = \<lparr> sequences = map exampleSeq ids, activeIndex = a,
                          isPlaying = True, timingMs = 1500 \<rparr>"

section \<open>Properties of the collection\<close>

lemma findIndex_ge: "findIndex p xs \<ge> -1"
  by (induction xs) (auto simp: Let_def)

lemma findIndex_none: "findIndex p xs = -1 \<longleftrightarrow> (\<forall>x\<in>set xs. \<not> p x)"
proof (induction xs)
  case Nil show ?case by simp
next
  case (Cons x xs)
  have "findIndex p xs \<ge> -1" by (rule findIndex_ge)
  with Cons show ?case by (auto simp: Let_def)
qed

lemma findIndex_found:
  "findIndex p xs \<noteq> -1 \<Longrightarrow>
     0 \<le> findIndex p xs \<and> findIndex p xs < int (length xs) \<and> p (xs ! nat (findIndex p xs))"
proof (induction xs)
  case Nil then show ?case by simp
next
  case (Cons x xs)
  show ?case
  proof (cases "p x")
    case True then show ?thesis by simp
  next
    case False
    with Cons.prems have ne: "findIndex p xs \<noteq> -1" by (auto simp: Let_def split: if_splits)
    from Cons.IH [OF ne] False ne show ?thesis by (simp add: Let_def nat_add_distrib)
  qed
qed

lemma filter_distinct_length:
  "distinct (map f xs) \<Longrightarrow> i \<in> f ` set xs \<Longrightarrow> length (filter (\<lambda>s. f s \<noteq> i) xs) = length xs - 1"
proof (induction xs)
  case Nil then show ?case by simp
next
  case (Cons x xs)
  show ?case
  proof (cases "f x = i")
    case True
    with Cons.prems(1) have "i \<notin> f ` set xs" by simp
    then have "\<forall>s\<in>set xs. f s \<noteq> i" by blast
    then have "filter (\<lambda>s. f s \<noteq> i) xs = xs" by (simp add: filter_id_conv)
    with True show ?thesis by simp
  next
    case False
    with Cons.prems have "i \<in> f ` set xs" by auto
    with Cons have "length (filter (\<lambda>s. f s \<noteq> i) xs) = length xs - 1" by simp
    moreover from \<open>i \<in> f ` set xs\<close> have "length xs > 0" by auto
    ultimately show ?thesis using False by simp
  qed
qed

lemma spliceStart_in_range: "0 \<le> i \<Longrightarrow> nat i \<le> length xs \<Longrightarrow> spliceStart xs i = nat i"
  by (simp add: spliceStart_def)

lemma insert_at_props:
  assumes "t \<le> length rest"
  shows "length (take t rest @ m # drop t rest) = Suc (length rest)"
    and "(take t rest @ m # drop t rest) ! t = m"
    and "take t (take t rest @ m # drop t rest) @ drop (Suc t) (take t rest @ m # drop t rest) = rest"
    and "set (take t rest @ m # drop t rest) = insert m (set rest)"
proof -
  from assms have lt: "length (take t rest) = t" by simp
  show "length (take t rest @ m # drop t rest) = Suc (length rest)" using assms by simp
  show "(take t rest @ m # drop t rest) ! t = m" using lt by (simp add: nth_append)
  show "take t (take t rest @ m # drop t rest) @ drop (Suc t) (take t rest @ m # drop t rest) = rest"
    using lt by simp
  have "set (take t rest) \<union> set (drop t rest) = set rest"
    by (metis append_take_drop_id set_append)
  then show "set (take t rest @ m # drop t rest) = insert m (set rest)" by auto
qed

lemma remove_at_set:
  assumes "f < length xs"
  shows "insert (xs ! f) (set (take f xs @ drop (Suc f) xs)) = set xs"
proof -
  from assms have "xs = take f xs @ (xs ! f) # drop (Suc f) xs" by (rule id_take_nth_drop)
  then have "set xs = set (take f xs @ (xs ! f) # drop (Suc f) xs)" by simp
  then show ?thesis by auto
qed

text \<open>
  Claim C7.  With exactly one item in the collection, \<^verbatim>\<open>deleteSequence\<close> changes
  nothing.  In a collection of two or more items that satisfies the invariants (distinct
  ids, active index in range), deleting an id that is present removes one item, keeps the
  ids distinct and leaves \<open>0 \<le> activeIndex < length\<close>.
\<close>

theorem deleteSequence_preserves_invariants:
  "(length (sequences st) = 1 \<longrightarrow> deleteSequence i st = st) \<and>
   (2 \<le> length (sequences st) \<and> distinct (map sid (sequences st)) \<and>
    0 \<le> activeIndex st \<and> activeIndex st < int (length (sequences st)) \<and>
    i \<in> sid ` set (sequences st) \<longrightarrow>
      length (sequences (deleteSequence i st)) = length (sequences st) - 1 \<and>
      distinct (map sid (sequences (deleteSequence i st))) \<and>
      0 \<le> activeIndex (deleteSequence i st) \<and>
      activeIndex (deleteSequence i st) < int (length (sequences (deleteSequence i st))))"
proof (intro conjI impI)
  assume "length (sequences st) = 1"
  then show "deleteSequence i st = st" by (simp add: deleteSequence_def)
next
  assume h: "2 \<le> length (sequences st) \<and> distinct (map sid (sequences st)) \<and>
    0 \<le> activeIndex st \<and> activeIndex st < int (length (sequences st)) \<and>
    i \<in> sid ` set (sequences st)"
  let ?new = "filter (\<lambda>s. sid s \<noteq> i) (sequences st)"
  from h have found: "findIndex (\<lambda>s. sid s = i) (sequences st) \<noteq> -1"
    by (auto simp: findIndex_none)
  from h have len: "length ?new = length (sequences st) - 1"
    by (simp add: filter_distinct_length)
  from findIndex_found [OF found] have idx0: "0 \<le> findIndex (\<lambda>s. sid s = i) (sequences st)"
    by simp
  from h have dist: "distinct (map sid ?new)" by (simp add: distinct_map_filter)
  show "length (sequences (deleteSequence i st)) = length (sequences st) - 1"
    using h found len by (simp add: deleteSequence_def Let_def)
  show "distinct (map sid (sequences (deleteSequence i st)))"
    using h found dist by (simp add: deleteSequence_def Let_def)
  show "0 \<le> activeIndex (deleteSequence i st)"
    using h found len idx0 by (simp add: deleteSequence_def Let_def)
  show "activeIndex (deleteSequence i st) < int (length (sequences (deleteSequence i st)))"
    using h found len idx0 by (auto simp add: deleteSequence_def Let_def)
qed

text \<open>The theorem on a collection of one item and on a collection of three with the last
  one active and deleted.\<close>

theorem deleteSequence_preserves_invariants_witness:
  "deleteSequence 1 (exampleState [1] 0) = exampleState [1] 0 \<and>
   length (sequences (deleteSequence 3 (exampleState [1, 2, 3] 2))) = 2 \<and>
   activeIndex (deleteSequence 3 (exampleState [1, 2, 3] 2)) = 1"
proof -
  have c: "length (sequences (exampleState [1] 0)) = 1"
    by (simp add: exampleState_def)
  have d: "2 \<le> length (sequences (exampleState [1, 2, 3] 2)) \<and>
           distinct (map sid (sequences (exampleState [1, 2, 3] 2))) \<and>
           0 \<le> activeIndex (exampleState [1, 2, 3] 2) \<and>
           activeIndex (exampleState [1, 2, 3] 2) < int (length (sequences (exampleState [1, 2, 3] 2))) \<and>
           3 \<in> sid ` set (sequences (exampleState [1, 2, 3] 2))"
    by (simp add: exampleState_def exampleSeq_def)
  from deleteSequence_preserves_invariants [of "exampleState [1] 0" 1] c
  have 1: "deleteSequence 1 (exampleState [1] 0) = exampleState [1] 0" by blast
  from deleteSequence_preserves_invariants [of "exampleState [1, 2, 3] 2" 3] d
  have 2: "length (sequences (deleteSequence 3 (exampleState [1, 2, 3] 2))) =
             length (sequences (exampleState [1, 2, 3] 2)) - 1"
    and 3: "0 \<le> activeIndex (deleteSequence 3 (exampleState [1, 2, 3] 2))"
    and 4: "activeIndex (deleteSequence 3 (exampleState [1, 2, 3] 2)) <
              int (length (sequences (deleteSequence 3 (exampleState [1, 2, 3] 2))))"
    by blast+
  have 5: "length (sequences (exampleState [1, 2, 3] 2)) = 3" by (simp add: exampleState_def)
  have 6: "activeIndex (deleteSequence 3 (exampleState [1, 2, 3] 2)) = 1"
    by (simp add: deleteSequence_def exampleState_def exampleSeq_def Let_def)
  from 1 2 5 6 show ?thesis by simp
qed

text \<open>
  Claim C8.  With the active index and both positions in range, \<^verbatim>\<open>reorderSequences\<close>
  returns normally; the item that was at \<open>fromIndex\<close> is at \<open>toIndex\<close>, the other
  items keep their order, and the new active index is in range and holds the id that was
  active before (the very same item when ids are distinct).
\<close>

theorem reorderSequences_keeps_active_item:
  assumes act: "0 \<le> activeIndex st" "activeIndex st < int (length (sequences st))"
    and fr: "0 \<le> fromIndex" "fromIndex < int (length (sequences st))"
    and to: "0 \<le> toIndex" "toIndex < int (length (sequences st))"
  shows "\<exists>st'. reorderSequences fromIndex toIndex st = Inr st' \<and>
           length (sequences st') = length (sequences st) \<and>
           sequences st' ! nat toIndex = sequences st ! nat fromIndex \<and>
           take (nat toIndex) (sequences st') @ drop (Suc (nat toIndex)) (sequences st') =
             take (nat fromIndex) (sequences st) @ drop (Suc (nat fromIndex)) (sequences st) \<and>
           0 \<le> activeIndex st' \<and> activeIndex st' < int (length (sequences st')) \<and>
           sid (sequences st' ! nat (activeIndex st')) = sid (sequences st ! nat (activeIndex st)) \<and>
           (distinct (map sid (sequences st)) \<longrightarrow>
              sequences st' ! nat (activeIndex st') = sequences st ! nat (activeIndex st))"
proof (cases "fromIndex = toIndex")
  case True
  then show ?thesis using act by (simp add: reorderSequences_def)
next
  case False
  define seqs where "seqs = sequences st"
  define f where "f = nat fromIndex"
  define t where "t = nat toIndex"
  define active where "active = seqs ! nat (activeIndex st)"
  define rest where "rest = take f seqs @ drop (Suc f) seqs"
  define new where "new = take t rest @ seqs ! f # drop t rest"
  define a' where "a' = findIndex (\<lambda>s. sid s = sid active) new"
  have flt: "f < length seqs" using fr by (simp add: f_def seqs_def)
  have tlt: "t < length seqs" using to by (simp add: t_def seqs_def)
  have lrest: "length rest = length seqs - 1" using flt by (simp add: rest_def)
  have tle: "t \<le> length rest" using tlt lrest by simp
  have idx: "index seqs (activeIndex st) = Some active"
    using act by (simp add: index_def seqs_def active_def)
  have sf: "spliceStart seqs fromIndex = f"
    using fr flt by (simp add: spliceStart_in_range f_def)
  have st: "spliceStart rest toIndex = t"
    using to tle by (simp add: spliceStart_in_range t_def)
  have lnew: "length new = length seqs"
    using insert_at_props(1) [OF tle] lrest flt by (simp add: new_def)
  have newt: "new ! t = seqs ! f"
    using insert_at_props(2) [OF tle] by (simp add: new_def)
  have others: "take t new @ drop (Suc t) new = rest"
    using insert_at_props(3) [OF tle] by (simp add: new_def)
  have setnew: "set new = set seqs"
    using insert_at_props(4) [OF tle, of "seqs ! f"] remove_at_set [OF flt]
    by (simp add: new_def rest_def)
  have "active \<in> set seqs" using act by (simp add: active_def seqs_def)
  then have "active \<in> set new" using setnew by simp
  then have found: "a' \<noteq> -1" by (auto simp: a'_def findIndex_none)
  from findIndex_found [of "\<lambda>s. sid s = sid active" new] found
  have a'0: "0 \<le> a'" and a'lt: "a' < int (length new)" and a'id: "sid (new ! nat a') = sid active"
    by (simp_all add: a'_def)
  have res: "reorderSequences fromIndex toIndex st = Inr (st\<lparr> sequences := new, activeIndex := a' \<rparr>)"
    using False idx sf st flt found
    by (simp add: reorderSequences_def Let_def seqs_def [symmetric] rest_def [symmetric]
        new_def [symmetric] a'_def [symmetric])
  have same: "distinct (map sid seqs) \<longrightarrow> new ! nat a' = active"
  proof
    assume "distinct (map sid seqs)"
    then have inj: "inj_on sid (set seqs)" by (simp add: distinct_map)
    have "new ! nat a' \<in> set new" using a'0 a'lt by simp
    then have "new ! nat a' \<in> set seqs" using setnew by simp
    with inj \<open>active \<in> set seqs\<close> a'id show "new ! nat a' = active" by (auto dest: inj_onD)
  qed
  show ?thesis
    using res lnew newt others a'0 a'lt a'id same
    by (simp add: seqs_def [symmetric] f_def [symmetric] t_def [symmetric] rest_def [symmetric]
        active_def [symmetric])
qed

text \<open>The example of the specification: ids 1, 2, 3 with id 2 active, moving position 0 to position 2.\<close>

theorem reorderSequences_keeps_active_item_witness:
  "\<exists>st'. reorderSequences 0 2 (exampleState [1, 2, 3] 1) = Inr st' \<and>
     map sid (sequences st') = [2, 3, 1] \<and> activeIndex st' = 0 \<and>
     sid (sequences st' ! nat (activeIndex st')) = 2"
proof -
  let ?st = "exampleState [1, 2, 3] 1"
  have h: "0 \<le> activeIndex ?st" "activeIndex ?st < int (length (sequences ?st))"
      "(0::int) \<le> 0" "0 < int (length (sequences ?st))"
      "(0::int) \<le> 2" "2 < int (length (sequences ?st))"
    by (simp_all add: exampleState_def)
  from reorderSequences_keeps_active_item [OF h]
  obtain st' where r: "reorderSequences 0 2 ?st = Inr st'"
    and i: "sid (sequences st' ! nat (activeIndex st')) = sid (sequences ?st ! nat (activeIndex ?st))"
    by blast
  have e: "reorderSequences 0 2 ?st =
             Inr (?st\<lparr> sequences := map exampleSeq [2, 3, 1], activeIndex := 0 \<rparr>)"
    by (simp add: reorderSequences_def exampleState_def exampleSeq_def index_def spliceStart_def Let_def)
  from r e have st': "st' = ?st\<lparr> sequences := map exampleSeq [2, 3, 1], activeIndex := 0 \<rparr>" by simp
  have "sid (sequences ?st ! nat (activeIndex ?st)) = 2" by (simp add: exampleState_def exampleSeq_def)
  with i r st' show ?thesis by (simp add: exampleSeq_def)
qed

text \<open>
  Claim C10.  On a non-empty collection \<^verbatim>\<open>addSequence\<close>, \<^verbatim>\<open>importSequence\<close>
  and \<^verbatim>\<open>duplicateSequence\<close> of a present id each put the new item at the end,
  make it the active one (\<open>activeIndex = length - 1\<close>) and stop playback.  For
  \<^verbatim>\<open>addSequence\<close> the active item's \<open>sequenceLength\<close> is a whole number below
  \<open>2\<^sup>3\<^sup>2\<close>, as the editor sets it.
\<close>

theorem creation_appends_and_selects:
  assumes ne: "sequences st \<noteq> []"
    and act: "activeSequence st = Some a"
    and len: "getProp (geoConfig a) ''sequenceLength'' = JNum (of_nat n)" "n < 2 ^ 32"
    and src: "find (\<lambda>s. sid s = i) (sequences st) = Some src"
  shows "(\<exists>st'. addSequence preset st = Inr st' \<and>
            sequences st' =
              sequences st @
                [\<lparr> sid = nextId (sequences st), name = ''Card '' @ intToString (nextId (sequences st)),
                   description = Some ''New sequence pattern'', data = replicate n 0,
                   geoConfig = geoConfig a \<rparr>] \<and>
            activeIndex st' = int (length (sequences st')) - 1 \<and> \<not> isPlaying st') \<and>
         (sequences (importSequence imp st) = sequences st @ [imp\<lparr> sid := nextId (sequences st) \<rparr>] \<and>
            activeIndex (importSequence imp st) = int (length (sequences (importSequence imp st))) - 1 \<and>
            \<not> isPlaying (importSequence imp st)) \<and>
         (sequences (duplicateSequence i st) =
              sequences st @ [src\<lparr> sid := nextId (sequences st), name := name src @ '' (Copy)'' \<rparr>] \<and>
            activeIndex (duplicateSequence i st) = int (length (sequences (duplicateSequence i st))) - 1 \<and>
            \<not> isPlaying (duplicateSequence i st))"
proof (intro conjI)
  have fl: "\<lfloor>(of_nat n :: rat)\<rfloor> = int n" by simp
  have "(of_nat n :: rat) < 2 ^ 32" using len(2) by (metis of_nat_less_iff of_nat_numeral of_nat_power)
  then have arr: "newArrayFill0 (JNum (of_nat n)) = Inr (replicate n 0)"
    by (simp add: newArrayFill0_def fl)
  show "\<exists>st'. addSequence preset st = Inr st' \<and>
            sequences st' =
              sequences st @
                [\<lparr> sid = nextId (sequences st), name = ''Card '' @ intToString (nextId (sequences st)),
                   description = Some ''New sequence pattern'', data = replicate n 0,
                   geoConfig = geoConfig a \<rparr>] \<and>
            activeIndex st' = int (length (sequences st')) - 1 \<and> \<not> isPlaying st'"
    using act len(1) arr by (simp add: addSequence_def Let_def)
qed (simp_all add: importSequence_def duplicateSequence_def Let_def src)

text \<open>The theorem at a concrete collection.\<close>

theorem creation_appends_and_selects_witness:
  "(\<exists>st'. addSequence [] (exampleState [1, 2] 0) = Inr st' \<and> map sid (sequences st') = [1, 2, 3] \<and>
         data (last (sequences st')) = [0, 0, 0] \<and> activeIndex st' = 2 \<and> \<not> isPlaying st') \<and>
   map sid (sequences (importSequence (exampleSeq 9) (exampleState [1, 2] 0))) = [1, 2, 3] \<and>
   activeIndex (importSequence (exampleSeq 9) (exampleState [1, 2] 0)) = 2 \<and>
   \<not> isPlaying (importSequence (exampleSeq 9) (exampleState [1, 2] 0)) \<and>
   map sid (sequences (duplicateSequence 2 (exampleState [1, 2] 0))) = [1, 2, 3] \<and>
   activeIndex (duplicateSequence 2 (exampleState [1, 2] 0)) = 2 \<and>
   \<not> isPlaying (duplicateSequence 2 (exampleState [1, 2] 0))"
proof -
  let ?st = "exampleState [1, 2] 0"
  have h1: "sequences ?st \<noteq> []" by (simp add: exampleState_def)
  have h2: "activeSequence ?st = Some (exampleSeq 1)"
    by (simp add: activeSequence_def index_def exampleState_def)
  have h3: "getProp (geoConfig (exampleSeq 1)) ''sequenceLength'' = JNum (of_nat 3)"
    by (simp add: getProp_def exampleSeq_def)
  have h4: "(3::nat) < 2 ^ 32" by simp
  have h5: "find (\<lambda>s. sid s = 2) (sequences ?st) = Some (exampleSeq 2)"
    by (simp add: exampleState_def exampleSeq_def)
  have n: "nextId (sequences ?st) = 3" by (simp add: nextId_def exampleState_def exampleSeq_def)
  have l: "sequences ?st = [exampleSeq 1, exampleSeq 2]" by (simp add: exampleState_def)
  note c = creation_appends_and_selects [OF h1 h2 h3 h4 h5, of "[]" "exampleSeq 9", unfolded n, unfolded l]
  from c show ?thesis by (auto simp: exampleSeq_def numeral_3_eq_3)
qed

section \<open>Properties of the PNG text chunk codec\<close>

lemma ucast_byte_back:
  fixes c :: "16 word"
  assumes "c < 256"
  shows "(ucast (ucast c :: 8 word) :: 16 word) = c"
proof -
  from assms have "unat c < 256" by (simp add: word_less_nat_alt)
  then have "take_bit 8 (unat c) = unat c" by (simp add: take_bit_nat_eq_self)
  then have "unat (ucast (ucast c :: 8 word) :: 16 word) = unat c"
    by (simp add: unsigned_ucast_eq take_bit_nat_eq_self unsigned_take_bit_eq)
  then show ?thesis by (simp add: word_unat_eq_iff)
qed

lemma ucast_byte_zero:
  fixes c :: "16 word"
  assumes "c < 256" "c \<noteq> 0"
  shows "(ucast c :: 8 word) \<noteq> 0"
proof
  assume "(ucast c :: 8 word) = 0"
  then have "(ucast (ucast c :: 8 word) :: 16 word) = 0" by simp
  with ucast_byte_back [OF assms(1)] assms(2) show False by simp
qed

lemma be32_arith:
  fixes n :: nat
  assumes "n < 4294967296"
  shows "((n div 16777216 mod 256 * 256 + n div 65536 mod 256) * 256 + n div 256 mod 256) * 256 + n mod 256 = n"
proof -
  have a: "n div 16777216 mod 256 = n div 16777216" using assms by simp
  have "n div 65536 div 256 = n div 16777216" by (simp add: div_mult2_eq [symmetric])
  with div_mult_mod_eq [of "n div 65536" 256]
  have b: "n div 16777216 * 256 + n div 65536 mod 256 = n div 65536" by simp
  have "n div 256 div 256 = n div 65536" by (simp add: div_mult2_eq [symmetric])
  with div_mult_mod_eq [of "n div 256" 256]
  have c: "n div 65536 * 256 + n div 256 mod 256 = n div 256" by simp
  from div_mult_mod_eq [of n 256] show ?thesis by (simp add: a b c)
qed

lemma be32_value:
  assumes "n < 2 ^ 32"
  shows "foldl (\<lambda>a b. a * 256 + unat b) 0 (u32be n) = n"
proof -
  from assms have "n < 4294967296" by simp
  moreover from this have "n div 16777216 mod 256 = n div 16777216" by simp
  ultimately show ?thesis using be32_arith [of n] by (simp add: u32be_def unat_of_nat)
qed

lemma findIndex_first:
  "\<forall>x\<in>set xs. \<not> p x \<Longrightarrow> p y \<Longrightarrow> findIndex p (xs @ y # ys) = int (length xs)"
  by (induction xs) (auto simp: Let_def)

lemma fromCharCode_stringToUint8:
  "\<forall>c\<in>set s. c < 256 \<Longrightarrow>
     fromCharCode argLimit (stringToUint8 s) = (if argLimit < length s then Inl RangeError else Inr s)"
proof -
  assume "\<forall>c\<in>set s. c < 256"
  then have "map ucast (map ucast s :: byte list) = s"
    by (induction s) (simp_all add: ucast_byte_back)
  then show ?thesis by (simp add: fromCharCode_def stringToUint8_def)
qed

text \<open>
  What the reader makes of the chunk body that the writer builds: the value, or
  RangeError when the key or the value has more characters than one call takes.
\<close>

lemma textChunkValue_written:
  assumes key: "\<forall>c\<in>set key. c < 256 \<and> c \<noteq> 0" and val: "\<forall>c\<in>set val. c < 256"
  shows "textChunkValue argLimit (stringToUint8 key @ [0] @ stringToUint8 val) key =
           (if argLimit < length key \<or> argLimit < length val then Inl RangeError
            else Inr (Some val))"
proof -
  let ?k = "stringToUint8 key"
  let ?v = "stringToUint8 val"
  have nz: "\<forall>b\<in>set ?k. \<not> b = 0"
    using key by (auto simp: stringToUint8_def ucast_byte_zero)
  have lk: "length ?k = length key" by (simp add: stringToUint8_def)
  have fi: "findIndex (\<lambda>b. b = 0) (?k @ 0 # ?v) = int (length key)"
    using findIndex_first [of ?k "\<lambda>b. b = 0" 0 ?v] nz lk by simp
  have k: "fromCharCode argLimit ?k = (if argLimit < length key then Inl RangeError else Inr key)"
    using key by (simp add: fromCharCode_stringToUint8)
  have v: "fromCharCode argLimit ?v = (if argLimit < length val then Inl RangeError else Inr val)"
    using val by (simp add: fromCharCode_stringToUint8)
  show ?thesis
    by (simp add: textChunkValue_def fi Let_def subarray_def lk k v)
qed

lemma take_drop_in_prefix:
  "n + k \<le> m \<Longrightarrow> m \<le> length xs \<Longrightarrow> take k (drop n (take m xs @ ys)) = take k (drop n xs)"
  by (auto simp add: drop_take min_def)

lemma length_u32be: "length (u32be n) = 4"
  by (simp add: u32be_def)

lemma tag_distinct:
  "jsString ''IHDR'' \<noteq> jsString ''tEXt''" "jsString ''IHDR'' \<noteq> jsString ''IEND''"
  "4 \<le> argLimit \<Longrightarrow>
     fromCharCode argLimit (stringToUint8 (jsString ''tEXt'')) = Inr (jsString ''tEXt'')"
  "length (stringToUint8 (jsString ''tEXt'')) = 4"
  by (simp_all add: jsString_def fromCharCode_def stringToUint8_def)

lemma write_shape:
  assumes "33 \<le> length png"
  shows "\<exists>a b c d. writePngMetadata png key val =
           Inr (take 33 png @ u32be (length key + 1 + length val) @ stringToUint8 (jsString ''tEXt'') @
                stringToUint8 key @ [0] @ stringToUint8 val @ [a, b, c, d] @ drop 33 png)"
  using assms by (simp add: writePngMetadata_def Let_def subarray_def u32be_def stringToUint8_def)

text \<open>
  Reading the key back from the written buffer comes down to reading the chunk body that
  was written, when the buffer begins with a 13-byte \<^verbatim>\<open>IHDR\<close>.
\<close>

lemma read_written_chunk:
  assumes len: "33 \<le> length png"
    and l13: "getUint32 png 8 = Inr 13"
    and ihdr: "fromCharCode argLimit (subarray png 12 16) = Inr (jsString ''IHDR'')"
    and key: "\<forall>c\<in>set key. c < 256 \<and> c \<noteq> 0"
    and val: "\<forall>c\<in>set val. c < 256"
    and size: "length key + 1 + length val < 2 ^ 32"
    and lim: "4 \<le> argLimit"
  shows "readAfterWrite argLimit png key val =
           (if argLimit < length key \<or> argLimit < length val then Inl RangeError
            else Inr (Some val))"
proof -
  define chunkData where "chunkData = stringToUint8 key @ [0] @ stringToUint8 val"
  define tag where "tag = stringToUint8 (jsString ''tEXt'')"
  define crc where "crc = u32be (unat (crc32 (tag @ chunkData)))"
  define tail where "tail = chunkData @ crc @ drop 33 png"
  define out where "out = take 33 png @ u32be (length chunkData) @ tag @ tail"
  have w: "writePngMetadata png key val = Inr out"
    using len by (simp add: writePngMetadata_def Let_def subarray_def out_def tail_def crc_def
        tag_def chunkData_def)
  have lc: "length chunkData = length key + 1 + length val"
    by (simp add: chunkData_def stringToUint8_def)
  have ltag: "length tag = 4" by (simp add: tag_def tag_distinct)
  have lt: "length (take 33 png) = 33" using len by simp
  have lout: "length out = 33 + (4 + (4 + length tail))"
    using lt by (simp add: out_def length_u32be ltag)
  have g8: "getUint32 out 8 = Inr 13"
  proof -
    have "take 4 (drop 8 out) = take 4 (drop 8 png)"
      unfolding out_def using len by (intro take_drop_in_prefix) simp_all
    with l13 len lout show ?thesis by (simp add: getUint32_def)
  qed
  have t8: "fromCharCode argLimit (subarray out (8 + 4) (8 + 8)) = Inr (jsString ''IHDR'')"
  proof -
    have "take 4 (drop 12 out) = take 4 (drop 12 png)"
      unfolding out_def using len by (intro take_drop_in_prefix) simp_all
    with ihdr show ?thesis by (simp add: subarray_def)
  qed
  have d33: "drop 33 out = u32be (length chunkData) @ tag @ tail"
    using lt by (simp add: out_def)
  have g33: "getUint32 out 33 = Inr (length chunkData)"
  proof -
    have "take 4 (drop 33 out) = u32be (length chunkData)"
      by (simp add: d33 length_u32be)
    moreover have "length chunkData < 2 ^ 32" using size lc by simp
    ultimately show ?thesis using lout by (simp add: getUint32_def be32_value)
  qed
  have d37: "drop 37 out = tag @ tail"
  proof -
    have "drop 37 out = drop 4 (drop 33 out)" by simp
    also have "\<dots> = tag @ tail" by (simp add: d33 length_u32be)
    finally show ?thesis .
  qed
  have t33: "fromCharCode argLimit (subarray out (33 + 4) (33 + 8)) = Inr (jsString ''tEXt'')"
    using d37 ltag lim by (simp add: subarray_def tag_def tag_distinct)
  have d41: "drop 41 out = tail"
  proof -
    have "drop 41 out = drop 4 (drop 37 out)" by simp
    also have "\<dots> = tail" by (simp add: d37 ltag)
    finally show ?thesis .
  qed
  have c33: "subarray out (33 + 8) (33 + 8 + length chunkData) = chunkData"
    using d41 by (simp add: subarray_def tail_def)
  have hit: "textChunkValue argLimit chunkData key =
               (if argLimit < length key \<or> argLimit < length val then Inl RangeError
                else Inr (Some val))"
    unfolding chunkData_def using key val by (rule textChunkValue_written)
  have r33: "readChunks argLimit out key 33 =
               (if argLimit < length key \<or> argLimit < length val then Inl RangeError
                else Inr (Some val))"
    using lout g33 t33 c33 hit by (subst readChunks.simps) simp
  have "readChunks argLimit out key 8 = readChunks argLimit out key (8 + 12 + 13)"
    using lout g8 t8 by (subst readChunks.simps) (simp add: tag_distinct)
  with r33 have "readPngMetadata argLimit out key =
               (if argLimit < length key \<or> argLimit < length val then Inl RangeError
                else Inr (Some val))"
    by (simp add: readPngMetadata_def)
  with w show ?thesis by (simp add: readAfterWrite_def)
qed

text \<open>
  Claim C2.  \<^verbatim>\<open>readPngMetadata\<close> is to answer "not found" on every buffer.  On a
  buffer that ends less than four bytes after the start of a chunk header it raises instead:
  the loop runs while \<open>offset < data.length\<close> and then reads four bytes with
  \<^verbatim>\<open>getUint32\<close>.  Here the buffer is the signature and one more byte.
\<close>

theorem readPngMetadata_truncated_header_raises:
  "readPngMetadata argLimit (pngSignature @ [0]) key = Inl RangeError"
  by (simp add: readPngMetadata_def readChunks.simps pngSignature_def getUint32_def)

text \<open>
  Claim C6, amended.  Take a buffer of at least 33 bytes whose first chunk is a 13-byte
  \<^verbatim>\<open>IHDR\<close>, a key of byte-sized characters none of which is the zero character, and
  a value of byte-sized characters, the two together shorter than \<open>2\<^sup>3\<^sup>2\<close> and each
  no longer than the number of arguments the engine accepts in one call.  Then reading
  the key from the written buffer gives the value back.
\<close>

theorem png_write_then_read:
  assumes len: "33 \<le> length png"
    and l13: "getUint32 png 8 = Inr 13"
    and ihdr: "fromCharCode argLimit (subarray png 12 16) = Inr (jsString ''IHDR'')"
    and key: "\<forall>c\<in>set key. c < 256 \<and> c \<noteq> 0"
    and val: "\<forall>c\<in>set val. c < 256"
    and size: "length key + 1 + length val < 2 ^ 32"
    and lim: "4 \<le> argLimit" "length key \<le> argLimit" "length val \<le> argLimit"
  shows "readAfterWrite argLimit png key val = Inr (Some val)"
  using read_written_chunk [OF len l13 ihdr key val size lim(1)] lim(2,3) by simp

text \<open>The theorem on the smallest PNG file, key \<^verbatim>\<open>K\<close>, value \<^verbatim>\<open>hello\<close>, with
  calls of up to 65535 arguments.\<close>

theorem png_write_then_read_witness:
  "readAfterWrite 65535 minimalPng (jsString ''K'') (jsString ''hello'') =
     Inr (Some (jsString ''hello''))"
proof -
  have h1: "33 \<le> length minimalPng" by (simp add: minimalPng_def pngSignature_def)
  have h2: "getUint32 minimalPng 8 = Inr 13"
    by (simp add: getUint32_def minimalPng_def pngSignature_def)
  have h3: "fromCharCode 65535 (subarray minimalPng 12 16) = Inr (jsString ''IHDR'')"
    by (simp add: fromCharCode_def subarray_def minimalPng_def pngSignature_def jsString_def)
  have h4: "\<forall>c\<in>set (jsString ''K''). c < 256 \<and> c \<noteq> 0" by (simp add: jsString_def)
  have h5: "\<forall>c\<in>set (jsString ''hello''). c < 256" by (simp add: jsString_def)
  have h6: "length (jsString ''K'') + 1 + length (jsString ''hello'') < 2 ^ 32"
    by (simp add: jsString_def)
  have h7: "(4::nat) \<le> 65535" "length (jsString ''K'') \<le> 65535"
    "length (jsString ''hello'') \<le> 65535"
    by (simp_all add: jsString_def)
  from png_write_then_read [OF h1 h2 h3 h4 h5 h6 h7] show ?thesis .
qed

text \<open>
  Claim C6 as stated, for any key of byte-sized characters, fails for a key that holds
  the zero character: the reader splits the chunk body at its first zero byte, finds the
  empty keyword, and goes on to the end of the file.
\<close>

theorem png_nul_key_counterexample:
  "readAfterWrite 65535 minimalPng [0] (jsString ''hello'') = Inr None"
proof -
  have "33 \<le> length minimalPng" by (simp add: minimalPng_def pngSignature_def)
  from write_shape [OF this, of "[0]" "jsString ''hello''"]
  obtain a b c d where w: "writePngMetadata minimalPng [0] (jsString ''hello'') =
      Inr (take 33 minimalPng @ u32be (length [0::16 word] + 1 + length (jsString ''hello'')) @
           stringToUint8 (jsString ''tEXt'') @
           stringToUint8 [0] @ [0] @ stringToUint8 (jsString ''hello'') @ [a, b, c, d] @ drop 33 minimalPng)"
    by blast
  show ?thesis
    unfolding readAfterWrite_def w
    by (simp add: readPngMetadata_def readChunks.simps minimalPng_def
      pngSignature_def getUint32_def subarray_def u32be_def stringToUint8_def fromCharCode_def
      jsString_def textChunkValue_def Let_def)
qed

text \<open>
  The bound on the lengths is needed as well: a value with more characters than one call
  of \<^verbatim>\<open>String.fromCharCode\<close> takes is written, and reading it back raises.
\<close>

lemma png_long_value_raises:
  assumes len: "33 \<le> length png"
    and l13: "getUint32 png 8 = Inr 13"
    and ihdr: "fromCharCode argLimit (subarray png 12 16) = Inr (jsString ''IHDR'')"
    and key: "\<forall>c\<in>set key. c < 256 \<and> c \<noteq> 0"
    and val: "\<forall>c\<in>set val. c < 256"
    and size: "length key + 1 + length val < 2 ^ 32"
    and lim: "4 \<le> argLimit" "argLimit < length val"
  shows "readAfterWrite argLimit png key val = Inl RangeError"
  using read_written_chunk [OF len l13 ihdr key val size lim(1)] lim(2) by simp

section \<open>Properties of the configuration codec\<close>

lemma rev_key_map: "REV_GEO_KEY_MAP = map (\<lambda>(k, v). (v, k)) GEO_KEY_MAP"
  by (simp add: REV_GEO_KEY_MAP_def GEO_KEY_MAP_def)

lemma distinct_full_keys: "distinct (map fst GEO_KEY_MAP)"
  by (simp add: GEO_KEY_MAP_def)

lemma distinct_aliases: "distinct (map snd GEO_KEY_MAP)"
  by (simp add: GEO_KEY_MAP_def)

lemma rev_lookup:
  assumes "(key, a) \<in> set GEO_KEY_MAP"
  shows "map_of REV_GEO_KEY_MAP a = Some key"
    and "map_of REV_GEO_KEY_MAP k = Some key \<Longrightarrow> k = a"
proof -
  have d: "distinct (map fst REV_GEO_KEY_MAP)"
    using distinct_aliases by (simp add: rev_key_map comp_def case_prod_unfold)
  have m: "\<And>x y. (x, y) \<in> set REV_GEO_KEY_MAP \<longleftrightarrow> (y, x) \<in> set GEO_KEY_MAP"
    by (auto simp: rev_key_map)
  from assms m have "(a, key) \<in> set REV_GEO_KEY_MAP" by simp
  with d show "map_of REV_GEO_KEY_MAP a = Some key" by simp
  assume "map_of REV_GEO_KEY_MAP k = Some key"
  then have "(k, key) \<in> set REV_GEO_KEY_MAP" by (rule map_of_SomeD)
  with m have "(key, k) \<in> set GEO_KEY_MAP" by simp
  from distinct_full_keys this assms show "k = a"
    by (rule eq_key_imp_eq_value)
qed


lemma minify_fold_other:
  "a \<notin> snd ` set km \<Longrightarrow>
   map_of (fold (\<lambda>(key, short) minGeo.
             (let targetVal = getProp t key; baseVal = getProp b key;
                  rTarget = smartRound targetVal; rBase = smartRound baseVal
              in if \<not> strictEq rTarget rBase then AList.update short rTarget minGeo else minGeo))
          km acc) a = map_of acc a"
  by (induction km arbitrary: acc) (auto simp: Let_def update_conv')

lemma minify_fold_hit:
  "distinct (map snd km) \<Longrightarrow> (key, a) \<in> set km \<Longrightarrow>
   map_of (fold (\<lambda>(key, short) minGeo.
             (let targetVal = getProp t key; baseVal = getProp b key;
                  rTarget = smartRound targetVal; rBase = smartRound baseVal
              in if \<not> strictEq rTarget rBase then AList.update short rTarget minGeo else minGeo))
          km acc) a =
     (if \<not> strictEq (smartRound (getProp t key)) (smartRound (getProp b key))
      then Some (smartRound (getProp t key)) else map_of acc a)"
proof (induction km arbitrary: acc)
  case Nil then show ?case by simp
next
  case (Cons x km)
  obtain k' a' where x: "x = (k', a')" by (cases x)
  show ?case
  proof (cases "(key, a) = x")
    case True
    with Cons.prems x have "a \<notin> snd ` set km" by auto
    from minify_fold_other [OF this] True x show ?thesis
      by (simp add: Let_def update_conv')
  next
    case False
    with Cons.prems have in_km: "(key, a) \<in> set km" by auto
    with Cons.prems x have ne: "a' \<noteq> a" by force
    from Cons.prems have "distinct (map snd km)" by simp
    from Cons.IH [OF this in_km] x ne show ?thesis
      by (simp add: Let_def update_conv')
  qed
qed

lemma minifyGeoDiff_lookup:
  assumes "(key, a) \<in> set GEO_KEY_MAP"
  shows "map_of (minifyGeoDiff t b) a =
     (if \<not> strictEq (smartRound (getProp t key)) (smartRound (getProp b key))
      then Some (smartRound (getProp t key)) else None)"
  unfolding minifyGeoDiff_def
  using minify_fold_hit [OF distinct_aliases assms, of t b "[]"] by simp

lemma minifyGeoDiff_empty_iff:
  "minifyGeoDiff t b = [] \<longleftrightarrow>
     (\<forall>(key, a)\<in>set GEO_KEY_MAP. strictEq (smartRound (getProp t key)) (smartRound (getProp b key)))"
proof
  assume e: "minifyGeoDiff t b = []"
  show "\<forall>(key, a)\<in>set GEO_KEY_MAP. strictEq (smartRound (getProp t key)) (smartRound (getProp b key))"
  proof (clarify)
    fix key a assume "(key, a) \<in> set GEO_KEY_MAP"
    from minifyGeoDiff_lookup [OF this, of t b] e
    show "strictEq (smartRound (getProp t key)) (smartRound (getProp b key))"
      by (simp split: if_splits)
  qed
next
  assume all: "\<forall>(key, a)\<in>set GEO_KEY_MAP. strictEq (smartRound (getProp t key)) (smartRound (getProp b key))"
  have "map_of (minifyGeoDiff t b) a = None" for a
  proof (cases "a \<in> snd ` set GEO_KEY_MAP")
    case True
    then obtain key where k: "(key, a) \<in> set GEO_KEY_MAP" by force
    with all have "strictEq (smartRound (getProp t key)) (smartRound (getProp b key))" by blast
    with minifyGeoDiff_lookup [OF k, of t b] show ?thesis by simp
  next
    case False
    from minify_fold_other [OF this, of t b "[]"] show ?thesis by (simp add: minifyGeoDiff_def)
  qed
  then have "map_of (minifyGeoDiff t b) = Map.empty" by (simp add: fun_eq_iff)
  then show "minifyGeoDiff t b = []" by simp
qed

lemma inflate_fold_lookup:
  assumes "map_of rv a = Some f" and "\<And>k. map_of rv k = Some f \<Longrightarrow> k = a"
  shows "map_of (fold (\<lambda>shortKey newGeo.
                   (case map_of rv shortKey of
                      Some fullKey \<Rightarrow> AList.update fullKey (val shortKey) newGeo
                    | None \<Rightarrow> newGeo)) ks base) f =
         (if a \<in> set ks then Some (val a) else map_of base f)"
proof (induction ks arbitrary: base)
  case Nil then show ?case by simp
next
  case (Cons k ks)
  have step: "map_of (case map_of rv k of
                      Some fullKey \<Rightarrow> AList.update fullKey (val k) base
                    | None \<Rightarrow> base) f = (if k = a then Some (val a) else map_of base f)"
  proof (cases "map_of rv k")
    case None
    with assms(1) have "k \<noteq> a" by auto
    with None show ?thesis by simp
  next
    case (Some g)
    show ?thesis
    proof (cases "g = f")
      case True
      with Some have "k = a" by (intro assms(2)) simp
      with Some True show ?thesis by (simp add: update_conv')
    next
      case False
      with Some assms(1) have "k \<noteq> a" by auto
      with Some False show ?thesis by (simp add: update_conv')
    qed
  qed
  let ?F = "\<lambda>shortKey newGeo.
                   (case map_of rv shortKey of
                      Some fullKey \<Rightarrow> AList.update fullKey (val shortKey) newGeo
                    | None \<Rightarrow> newGeo)"
  have "map_of (fold ?F (k # ks) base) f = map_of (fold ?F ks (?F k base)) f" by simp
  also have "\<dots> = (if a \<in> set ks then Some (val a) else map_of (?F k base) f)"
    by (rule Cons.IH)
  also have "\<dots> = (if a \<in> set (k # ks) then Some (val a) else map_of base f)"
    unfolding step by auto
  finally show ?case .
qed

lemma inflate_minify:
  assumes k: "(key, a) \<in> set GEO_KEY_MAP"
  shows "getProp (inflateGeoDiff (JObj (minifyGeoDiff t b)) base) key =
     (if \<not> strictEq (smartRound (getProp t key)) (smartRound (getProp b key))
      then smartRound (getProp t key) else getProp base key)"
proof -
  let ?d = "minifyGeoDiff t b"
  have mem: "a \<in> set (map fst ?d) \<longleftrightarrow> map_of ?d a \<noteq> None"
    by (simp add: map_of_eq_None_iff)
  from inflate_fold_lookup [of REV_GEO_KEY_MAP a key "getMember (JObj ?d)" "map fst ?d" base,
      OF rev_lookup(1) [OF k] rev_lookup(2) [OF k]]
  have "map_of (inflateGeoDiff (JObj ?d) base) key =
          (if a \<in> set (map fst ?d) then Some (getMember (JObj ?d) a) else map_of base key)"
    by (simp add: inflateGeoDiff_def)
  then show ?thesis
    unfolding mem minifyGeoDiff_lookup [OF k]
    by (simp add: getProp_def getMember_def minifyGeoDiff_lookup [OF k])
qed

lemma mapResult_all_ok:
  "(\<And>x. x \<in> set xs \<Longrightarrow> f x = Inr (g x)) \<Longrightarrow> mapResult f xs = Inr (map g xs)"
  by (induction xs) simp_all

lemma minifySequence_members:
  "\<not> isNullish (minifySequence geo s)"
  "getMember (minifySequence geo s) ''D'' = JStr (concat (map intToString (data s)))"
  "getMember (minifySequence geo s) ''g'' =
     (if minifyGeoDiff (geoConfig s) geo = [] then JUndefined
      else JObj (minifyGeoDiff (geoConfig s) geo))"
  by (cases "description s"; simp add: minifySequence_def Let_def getMember_def getProp_def)+

lemma minifySequence_keys:
  "minifyGeoDiff (geoConfig s) geo = [] \<Longrightarrow> ''g'' \<notin> fst ` set (ownEntries (minifySequence geo s))"
  by (cases "description s") (auto simp add: minifySequence_def Let_def)

lemma decodeSeqV4_minifySequence:
  "decodeSeqV4 x gb (minifySequence geo s) =
     Inr \<lparr> rawId = orElse (getMember (minifySequence geo s) ''i'') (JNum x),
           rawName = orElse (getMember (minifySequence geo s) ''n'') (JStr ''Sequence''),
           rawDescription = orElse (getMember (minifySequence geo s) ''d'') (JStr []),
           rawData = map parseIntChar (concat (map intToString (data s))),
           rawGeoConfig = (if minifyGeoDiff (geoConfig s) geo = [] then gb
                           else inflateGeoDiff (JObj (minifyGeoDiff (geoConfig s) geo)) gb) \<rparr>"
  by (simp add: decodeSeqV4_def minifySequence_members Let_def decodeData_def)

lemma parseIntChar_digit: "n < 10 \<Longrightarrow> parseIntChar (digitChar n) = JNum (of_nat n)"
  by (simp add: parseIntChar_def digitChar_def Let_def)

lemma digits_roundtrip:
  "\<forall>d\<in>set ds. 0 \<le> d \<and> d \<le> 9 \<Longrightarrow>
   map parseIntChar (concat (map intToString ds)) = map (\<lambda>d. JNum (of_int d)) ds"
proof (induction ds)
  case Nil then show ?case by simp
next
  case (Cons d ds)
  then have d: "0 \<le> d" "d \<le> 9" by simp_all
  then have "nat d < 10" by simp
  then have "intToString d = [digitChar (nat d)]" using d by (simp add: intToString_def)
  moreover have "parseIntChar (digitChar (nat d)) = JNum (of_int d)"
    using parseIntChar_digit [OF \<open>nat d < 10\<close>] d by simp
  ultimately show ?case using Cons by simp
qed

lemma decompressBody_compressPayload:
  fixes rnd preset geo seqs timing
  defines "gb \<equiv> inflateGeoDiff (JObj (minifyGeoDiff geo preset)) preset"
  shows "\<exists>dseqs t.
     decompressBody rnd preset (compressPayload preset geo seqs timing) =
       Inr (Some \<lparr> decGeoConfig = gb, decSequences = dseqs, decTimingMs = t \<rparr>) \<and>
     length dseqs = length seqs \<and>
     (\<forall>i<length seqs.
        rawData (dseqs ! i) = map parseIntChar (concat (map intToString (data (seqs ! i)))) \<and>
        rawGeoConfig (dseqs ! i) =
          (if minifyGeoDiff (geoConfig (seqs ! i)) geo = [] then gb
           else inflateGeoDiff (JObj (minifyGeoDiff (geoConfig (seqs ! i)) geo)) gb))"
proof -
  let ?items = "map (minifySequence geo) seqs"
  let ?f = "\<lambda>(i, s). decodeSeqV4 (rnd i) gb s"
  let ?g = "\<lambda>p. projr (?f p)"
  have ok: "?f p = Inr (?g p)" if "p \<in> set (enumerate 0 ?items)" for p
  proof -
    obtain i ms where p: "p = (i, ms)" by (cases p)
    with that have "ms \<in> set ?items" by (auto simp: in_set_enumerate_eq)
    then obtain s where "ms = minifySequence geo s" by auto
    with p show ?thesis by (simp add: decodeSeqV4_minifySequence)
  qed
  have m: "mapResult ?f (enumerate 0 ?items) = Inr (map ?g (enumerate 0 ?items))"
    by (rule mapResult_all_ok) (rule ok)
  let ?dseqs = "map ?g (enumerate 0 ?items)"
  have body: "decompressBody rnd preset (compressPayload preset geo seqs timing) =
       Inr (Some \<lparr> decGeoConfig = gb, decSequences = ?dseqs,
                     decTimingMs = JNum (case timing of Some t \<Rightarrow> t | None \<Rightarrow> 1500) \<rparr>)"
    using m by (simp add: decompressBody_def compressPayload_def Let_def getMember_def getProp_def
        gb_def)
  have len: "length ?dseqs = length seqs" by simp
  have nth: "?dseqs ! i = projr (decodeSeqV4 (rnd i) gb (minifySequence geo (seqs ! i)))"
    if "i < length seqs" for i
    using that by (simp add: nth_enumerate_eq)
  show ?thesis
    using body len nth by (intro exI conjI) (assumption, simp, simp add: decodeSeqV4_minifySequence)
qed

lemma isGeoValue_strictEq: "isGeoValue v \<Longrightarrow> strictEq (smartRound v) (smartRound v)"
  by (cases v) simp_all

text \<open>The example configurations satisfy what the theorems below ask for.\<close>

text \<open>
  The example text layer on the example payload: the payload that \<^verbatim>\<open>compressConfig\<close>
  builds, the text written for it, and what the reader makes of that text.
\<close>

lemma example_payload:
  "compressPayload examplePreset exampleGeo exampleItems (Some 1500) =
     JObj [(''v'', JNum 4), (''t'', JNum 1500), (''G'', JObj [(''j'', JNum (333 / 1000))]),
           (''s'', JArr [JObj [(''i'', JNum 1), (''n'', JStr ''Card 1''), (''D'', JStr ''0103'')],
                         JObj [(''i'', JNum 2), (''n'', JStr ''Card 2''), (''D'', JStr ''902''),
                               (''d'', JStr ''second''), (''g'', JObj [(''i'', JNum 7)])]])]"
  by code_simp

lemma example_quotients:
  "quotient_of 4 = (4, 1)" "quotient_of 1500 = (1500, 1)"
  "quotient_of (333 / 1000) = (333, 1000)"
  "quotient_of 1 = (1, 1)" "quotient_of 2 = (2, 1)" "quotient_of 7 = (7, 1)"
  by code_simp+

lemma digitChar_values:
  "digitChar 0 = CHR ''0''" "digitChar 1 = CHR ''1''" "digitChar 2 = CHR ''2''"
  "digitChar 3 = CHR ''3''" "digitChar 4 = CHR ''4''" "digitChar 5 = CHR ''5''"
  "digitChar 6 = CHR ''6''" "digitChar 7 = CHR ''7''" "digitChar 8 = CHR ''8''"
  "digitChar 9 = CHR ''9''"
  "digitChar (Suc 0) = CHR ''1''"
  "digitChar (Suc (Suc 0)) = CHR ''2''"
  "digitChar (Suc (Suc (Suc 0))) = CHR ''3''"
  "digitChar (Suc (Suc (Suc (Suc 0)))) = CHR ''4''"
  "digitChar (Suc (Suc (Suc (Suc (Suc 0))))) = CHR ''5''"
  "digitChar (Suc (Suc (Suc (Suc (Suc (Suc 0)))))) = CHR ''6''"
  "digitChar (Suc (Suc (Suc (Suc (Suc (Suc (Suc 0))))))) = CHR ''7''"
  "digitChar (Suc (Suc (Suc (Suc (Suc (Suc (Suc (Suc 0)))))))) = CHR ''8''"
  "digitChar (Suc (Suc (Suc (Suc (Suc (Suc (Suc (Suc (Suc 0))))))))) = CHR ''9''"
  by code_simp+

lemma example_token:
  "exampleEncode (compressPayload examplePreset exampleGeo exampleItems (Some 1500)) =
     ''o4;1;v+4;1;1;t+1500;1;1;Go1;1;j+333;1000;1;sa2;o3;1;i+1;1;1;ns6;Card 11;Ds4;0103o5;1;i+2;1;1;ns6;Card 21;Ds3;9021;ds6;second1;go1;1;i+7;1;''"
  unfolding example_payload exampleEncode_def
  by (simp add: exampleEncodeNat_def example_quotients digitChar_values)

lemma example_parse:
  "exampleDecode ''o4;1;v+4;1;1;t+1500;1;1;Go1;1;j+333;1000;1;sa2;o3;1;i+1;1;1;ns6;Card 11;Ds4;0103o5;1;i+2;1;1;ns6;Card 21;Ds3;9021;ds6;second1;go1;1;i+7;1;'' =
     Some (JObj [(''v'', JNum 4), (''t'', JNum 1500), (''G'', JObj [(''j'', JNum (333 / 1000))]),
           (''s'', JArr [JObj [(''i'', JNum 1), (''n'', JStr ''Card 1''), (''D'', JStr ''0103'')],
                         JObj [(''i'', JNum 2), (''n'', JStr ''Card 2''), (''D'', JStr ''902''),
                               (''d'', JStr ''second''), (''g'', JObj [(''i'', JNum 7)])]])])"
  by (simp add: exampleDecode_def exampleDecodeNat_def exampleDecodeText_def
      exampleDecodeNumber_def exampleDecodeMany.simps)

text \<open>The reader on other texts.\<close>

lemma example_parse_others:
  "exampleDecode ''n'' = Some JNull"
  "exampleDecode ''o1;1;vt'' = Some (JObj [(''v'', JBool True)])"
  "exampleDecode ''token'' = None"
  "exampleDecode ''a2;n'' = None"
  by (simp_all add: exampleDecode_def exampleDecodeNat_def exampleDecodeText_def
      exampleDecodeNumber_def exampleDecodeMany.simps)

lemma example_codec:
  "exampleDecode (exampleEncode (compressPayload examplePreset exampleGeo exampleItems (Some 1500))) =
     Some (compressPayload examplePreset exampleGeo exampleItems (Some 1500))"
proof -
  have "exampleDecode (exampleEncode (compressPayload examplePreset exampleGeo exampleItems (Some 1500))) =
     Some (JObj [(''v'', JNum 4), (''t'', JNum 1500), (''G'', JObj [(''j'', JNum (333 / 1000))]),
           (''s'', JArr [JObj [(''i'', JNum 1), (''n'', JStr ''Card 1''), (''D'', JStr ''0103'')],
                         JObj [(''i'', JNum 2), (''n'', JStr ''Card 2''), (''D'', JStr ''902''),
                               (''d'', JStr ''second''), (''g'', JObj [(''i'', JNum 7)])]])])"
    by (simp only: example_token example_parse)
  then show ?thesis by (simp only: example_payload)
qed


lemma getProp_update: "getProp (AList.update k v ob) key = (if key = k then v else getProp ob key)"
  by (simp add: getProp_def update_conv')

lemma getProp_constant_table:
  "key \<in> fst ` set km \<Longrightarrow> getProp (map (\<lambda>(key, short). (key, c)) km) key = c"
  by (induction km) (auto simp: getProp_def)

lemma examplePreset_field:
  "key \<in> fst ` set GEO_KEY_MAP \<Longrightarrow>
   getProp examplePreset key =
     (if key = ''lobeType'' then JStr ''sunflower'' else if key = ''showFrame'' then JBool True
      else JNum 1)"
  by (simp add: examplePreset_def getProp_update getProp_constant_table)

lemma exampleGeo_field:
  "key \<in> fst ` set GEO_KEY_MAP \<Longrightarrow>
   getProp exampleGeo key =
     (if key = ''petalSize'' then JNum (1 / 3) else if key = ''lobeType'' then JStr ''sunflower''
      else if key = ''showFrame'' then JBool True else JNum 1)"
  by (simp add: exampleGeo_def getProp_update examplePreset_field)


lemma example_geo_typed:
  "\<forall>key\<in>fst ` set GEO_KEY_MAP. isGeoValue (getProp exampleGeo key)"
  by (simp add: exampleGeo_field)

text \<open>
  What \<open>smartRound\<close> does to a field.  A number within \<open>1 / 10000\<close> of a whole
  number becomes that whole number; another number, below \<open>10\<^sup>2\<^sup>1\<close> in magnitude,
  becomes a multiple of \<open>1 / 1000\<close> at most \<open>1 / 2000\<close> away from it; a boolean
  and a string stay as they are.
\<close>

lemma toFixed3_near:
  assumes "\<bar>x\<bar> < 10 ^ 21"
  shows "\<exists>n. toFixed3 x = of_int n / 1000" and "\<bar>toFixed3 x - x\<bar> \<le> 1 / 2000"
proof -
  have fl: "of_int \<lfloor>z\<rfloor> \<le> z" "z < of_int \<lfloor>z\<rfloor> + 1" for z :: rat by linarith+
  show "\<exists>n. toFixed3 x = of_int n / 1000"
  proof (cases "x < 0")
    case True
    with assms have "toFixed3 x = of_int (- \<lfloor>(- x) * 1000 + 1 / 2\<rfloor>) / 1000"
      by (simp add: toFixed3_def)
    then show ?thesis by (rule exI)
  next
    case False
    with assms have "toFixed3 x = of_int \<lfloor>x * 1000 + 1 / 2\<rfloor> / 1000"
      by (simp add: toFixed3_def)
    then show ?thesis by (rule exI)
  qed
  show "\<bar>toFixed3 x - x\<bar> \<le> 1 / 2000"
  proof (cases "x < 0")
    case True
    define m where "m = \<lfloor>(- x) * 1000 + 1 / 2\<rfloor>"
    from True assms have t: "toFixed3 x = - (of_int m / 1000)" by (simp add: toFixed3_def m_def)
    from fl [of "(- x) * 1000 + 1 / 2"] have "of_int m \<le> (- x) * 1000 + 1 / 2"
      "(- x) * 1000 + 1 / 2 < of_int m + 1" unfolding m_def by simp_all
    then show ?thesis unfolding t by linarith
  next
    case False
    define m where "m = \<lfloor>x * 1000 + 1 / 2\<rfloor>"
    from False assms have t: "toFixed3 x = of_int m / 1000" by (simp add: toFixed3_def m_def)
    from fl [of "x * 1000 + 1 / 2"] have "of_int m \<le> x * 1000 + 1 / 2"
      "x * 1000 + 1 / 2 < of_int m + 1" unfolding m_def by simp_all
    then show ?thesis unfolding t by linarith
  qed
qed

lemma smartRound_rounding:
  "\<bar>x - of_int (mathRound x)\<bar> < 1 / 10000 \<Longrightarrow> smartRound (JNum x) = JNum (of_int (mathRound x))"
  "\<not> \<bar>x - of_int (mathRound x)\<bar> < 1 / 10000 \<Longrightarrow> \<bar>x\<bar> < 10 ^ 21 \<Longrightarrow>
     \<exists>y n. smartRound (JNum x) = JNum y \<and> y = of_int n / 1000 \<and> \<bar>y - x\<bar> \<le> 1 / 2000"
  "smartRound (JBool b) = JBool b"
  "smartRound (JStr s) = JStr s"
proof -
  show "\<bar>x - of_int (mathRound x)\<bar> < 1 / 10000 \<Longrightarrow> smartRound (JNum x) = JNum (of_int (mathRound x))"
    by simp
  show "\<exists>y n. smartRound (JNum x) = JNum y \<and> y = of_int n / 1000 \<and> \<bar>y - x\<bar> \<le> 1 / 2000"
    if a: "\<not> \<bar>x - of_int (mathRound x)\<bar> < 1 / 10000" and b: "\<bar>x\<bar> < 10 ^ 21"
  proof -
    from toFixed3_near [OF b] obtain n where n: "toFixed3 x = of_int n / 1000"
      and e: "\<bar>toFixed3 x - x\<bar> \<le> 1 / 2000" by blast
    from a have "smartRound (JNum x) = JNum (toFixed3 x)" by simp
    with n e show ?thesis by blast
  qed
  show "smartRound (JBool b) = JBool b" "smartRound (JStr s) = JStr s" by simp_all
qed



text \<open>
  The assumption on the preset is needed.  With a preset whose \<open>petalSize\<close> is 0.12345
  and the same value in the configuration, nothing is written for the field and the decoded
  value is 0.12345, where \<open>smartRound\<close> gives 0.123.
\<close>

lemma unrounded_preset_field_survives:
  "getProp (inflateGeoDiff (JObj (minifyGeoDiff [(''petalSize'', JNum (12345 / 100000))]
                                               [(''petalSize'', JNum (12345 / 100000))]))
                          [(''petalSize'', JNum (12345 / 100000))]) ''petalSize'' =
     JNum (12345 / 100000)"
  "smartRound (JNum (12345 / 100000)) = JNum (123 / 1000)"
proof -
  have k: "(''petalSize'', ''j'') \<in> set GEO_KEY_MAP" by (simp add: GEO_KEY_MAP_def)
  have "strictEq (smartRound (JNum (12345 / 100000))) (smartRound (JNum (12345 / 100000)))"
    by (rule isGeoValue_strictEq) simp
  then show "getProp (inflateGeoDiff (JObj (minifyGeoDiff [(''petalSize'', JNum (12345 / 100000))]
                                               [(''petalSize'', JNum (12345 / 100000))]))
                          [(''petalSize'', JNum (12345 / 100000))]) ''petalSize'' =
     JNum (12345 / 100000)"
    unfolding inflate_minify [OF k] by (simp add: getProp_def del: smartRound.simps(1))
  show "smartRound (JNum (12345 / 100000)) = JNum (123 / 1000)" by code_simp
qed

text \<open>
  Claim C3.  \<^verbatim>\<open>decompressConfig\<close> returns normally on every input string, whatever
  the text layer makes of it and whatever the payload holds: the result is \<^verbatim>\<open>null\<close>
  or a decoded value.
\<close>

theorem decompressConfig_never_throws:
  "decompressConfig textDecode rnd preset encoded = Inr None \<or>
   (\<exists>r. decompressConfig textDecode rnd preset encoded = Inr (Some r))"
  by (auto simp: decompressConfig_def split: option.splits sum.splits)

text \<open>Some of the inputs that end in the \<^verbatim>\<open>catch\<close> or at the last \<^verbatim>\<open>return null\<close>.\<close>

lemma decompressConfig_failures:
  "textDecode encoded = None \<Longrightarrow> decompressConfig textDecode rnd preset encoded = Inr None"
  "textDecode encoded = Some JNull \<Longrightarrow> decompressConfig textDecode rnd preset encoded = Inr None"
  "textDecode encoded = Some (JObj [(''v'', JNum 4)]) \<Longrightarrow>
     decompressConfig textDecode rnd preset encoded = Inr None"
  "textDecode encoded = Some (JObj [(''v'', JNum 4), (''s'', JArr [JNull])]) \<Longrightarrow>
     decompressConfig textDecode rnd preset encoded = Inr None"
  "textDecode encoded = Some (JObj [(''x'', JNum 1)]) \<Longrightarrow>
     decompressConfig textDecode rnd preset encoded = Inr None"
  by (simp_all add: decompressConfig_def decompressBody_def getMember_def getProp_def Let_def
      decodeSeqV4_def enumerate_eq_zip)

text \<open>
  Claim C4.  When every element of every data array is a whole number from 0 to 9, decoding
  the token gives each data array back, element for element.  The text layer is assumed to
  give back, from the text it wrote for it, the payload that \<^verbatim>\<open>compressConfig\<close>
  builds.
\<close>

theorem sequence_data_roundtrip:
  assumes codec: "textDecode (textEncode (compressPayload preset geo seqs timing)) =
                    Some (compressPayload preset geo seqs timing)"
    and digits: "\<forall>s\<in>set seqs. \<forall>d\<in>set (data s). 0 \<le> d \<and> d \<le> 9"
  shows "\<exists>r. decompressConfig textDecode rnd preset (compressConfig textEncode preset geo seqs timing) =
               Inr (Some r) \<and>
           map rawData (decSequences r) = map (\<lambda>s. map (\<lambda>d. JNum (of_int d)) (data s)) seqs"
proof -
  from decompressBody_compressPayload [of rnd preset geo seqs timing]
  obtain gb dseqs t where
    body: "decompressBody rnd preset (compressPayload preset geo seqs timing) =
       Inr (Some \<lparr> decGeoConfig = gb, decSequences = dseqs, decTimingMs = t \<rparr>)"
    and len: "length dseqs = length seqs"
    and nth: "\<forall>i<length seqs.
        rawData (dseqs ! i) = map parseIntChar (concat (map intToString (data (seqs ! i))))"
    by blast
  have "map rawData dseqs = map (\<lambda>s. map (\<lambda>d. JNum (of_int d)) (data s)) seqs"
  proof (rule nth_equalityI)
    show "length (map rawData dseqs) = length (map (\<lambda>s. map (\<lambda>d. JNum (of_int d)) (data s)) seqs)"
      using len by simp
  next
    fix i assume "i < length (map rawData dseqs)"
    with len have i: "i < length seqs" by simp
    then have "seqs ! i \<in> set seqs" by simp
    with digits have "\<forall>d\<in>set (data (seqs ! i)). 0 \<le> d \<and> d \<le> 9" by blast
    from digits_roundtrip [OF this] nth i len
    show "map rawData dseqs ! i = map (\<lambda>s. map (\<lambda>d. JNum (of_int d)) (data s)) seqs ! i"
      by simp
  qed
  moreover have "decompressConfig textDecode rnd preset
      (compressConfig textEncode preset geo seqs timing) =
        Inr (Some \<lparr> decGeoConfig = gb, decSequences = dseqs, decTimingMs = t \<rparr>)"
    using codec body by (simp add: decompressConfig_def compressConfig_def)
  ultimately show ?thesis by simp
qed

text \<open>The theorem on the example items.\<close>

theorem sequence_data_roundtrip_witness:
  "\<exists>r. decompressConfig exampleDecode (\<lambda>i. 0) examplePreset
          (compressConfig exampleEncode examplePreset exampleGeo exampleItems (Some 1500)) =
            Inr (Some r) \<and>
        map rawData (decSequences r) = [[JNum 0, JNum 1, JNum 0, JNum 3], [JNum 9, JNum 0, JNum 2]]"
proof -
  have d: "\<forall>s\<in>set exampleItems. \<forall>d\<in>set (data s). 0 \<le> d \<and> d \<le> 9"
    by (simp add: exampleItems_def)
  have m: "map (\<lambda>s. map (\<lambda>d. JNum (of_int d)) (data s)) exampleItems =
             [[JNum 0, JNum 1, JNum 0, JNum 3], [JNum 9, JNum 0, JNum 2]]"
    by (simp add: exampleItems_def)
  from sequence_data_roundtrip [where textDecode = exampleDecode and textEncode = exampleEncode
      and rnd = "\<lambda>i. 0", OF example_codec d]
  show ?thesis unfolding m .
qed

text \<open>The bound is needed: the element 10 is written as two characters and read as two elements.\<close>

lemma two_digit_value_is_split:
  "map parseIntChar (concat (map intToString [1, 10, 3])) = [JNum 1, JNum 1, JNum 0, JNum 3]"
  by (simp add: intToString_def parseIntChar_def digitChar_def Let_def)

text \<open>
  Claim C5.  Take an active configuration whose fields hold numbers, booleans or strings,
  and an item whose configuration has at every field of the alias table the same rounded
  value.  Then the object written for that item in the version 4 payload has no key
  \<open>g\<close>.
\<close>

theorem equal_item_omits_diff:
  assumes i: "i < length seqs"
    and typed: "\<forall>key\<in>fst ` set GEO_KEY_MAP. isGeoValue (getProp geo key)"
    and same: "\<forall>key\<in>fst ` set GEO_KEY_MAP.
                 smartRound (getProp (geoConfig (seqs ! i)) key) = smartRound (getProp geo key)"
  shows "\<exists>items. getMember (compressPayload preset geo seqs timing) ''s'' = JArr items \<and>
           length items = length seqs \<and>
           ''g'' \<notin> fst ` set (ownEntries (items ! i))"
proof -
  have "strictEq (smartRound (getProp (geoConfig (seqs ! i)) key)) (smartRound (getProp geo key))"
    if "(key, a) \<in> set GEO_KEY_MAP" for key a
  proof -
    from that have "key \<in> fst ` set GEO_KEY_MAP" by force
    with typed have "isGeoValue (getProp geo key)" by blast
    then have "strictEq (smartRound (getProp geo key)) (smartRound (getProp geo key))"
      by (rule isGeoValue_strictEq)
    moreover from same \<open>key \<in> fst ` set GEO_KEY_MAP\<close>
    have "smartRound (getProp (geoConfig (seqs ! i)) key) = smartRound (getProp geo key)" by blast
    ultimately show ?thesis by simp
  qed
  then have "minifyGeoDiff (geoConfig (seqs ! i)) geo = []"
    by (auto simp: minifyGeoDiff_empty_iff)
  then have "''g'' \<notin> fst ` set (ownEntries (minifySequence geo (seqs ! i)))"
    by (rule minifySequence_keys)
  with i show ?thesis
    by (simp add: compressPayload_def Let_def getMember_def getProp_def)
qed

text \<open>The theorem on the first example item, whose configuration is the active one.\<close>

theorem equal_item_omits_diff_witness:
  "\<exists>items. getMember (compressPayload examplePreset exampleGeo exampleItems (Some 1500)) ''s'' =
             JArr items \<and>
           length items = 2 \<and> ''g'' \<notin> fst ` set (ownEntries (items ! 0))"
proof -
  have i: "0 < length exampleItems" by (simp add: exampleItems_def)
  have same: "\<forall>key\<in>fst ` set GEO_KEY_MAP.
                 smartRound (getProp (geoConfig (exampleItems ! 0)) key) =
                 smartRound (getProp exampleGeo key)"
    by (simp add: exampleItems_def)
  have l: "length exampleItems = 2" by (simp add: exampleItems_def)
  from equal_item_omits_diff [OF i example_geo_typed same, of examplePreset "Some 1500"]
  show ?thesis unfolding l .
qed

section \<open>Properties of the rounding to double precision\<close>

lemma powi2_pos: "(0::rat) < 2 powi n"
  by (rule zero_less_power_int) simp

lemma powi2_diff: "(2::rat) powi (m - n) = 2 powi m / 2 powi n"
  by (rule power_int_diff) simp

lemma powi2_less_imp:
  assumes "(2::rat) powi a < 2 powi b"
  shows "a < b"
proof (rule ccontr)
  assume "\<not> a < b"
  then have "b \<le> a" by simp
  then have "(2::rat) powi b \<le> 2 powi a" by (rule power_int_increasing) simp
  with assms show False by simp
qed

lemma powi2_le_pos: "(2::rat) powi n \<le> x \<Longrightarrow> 0 < x"
  using powi2_pos [of n] by (rule less_le_trans)

lemma floorlog2_bounds:
  assumes "0 < n"
  shows "(2::rat) powi (int (floorlog 2 n) - 1) \<le> of_nat n" "of_nat n < (2::rat) powi (int (floorlog 2 n))"
proof -
  from assms have pos: "0 < floorlog 2 n" by (simp add: floorlog_def)
  from floorlog_bounds [where b = 2 and x = n] assms have a: "2 ^ (floorlog 2 n - 1) \<le> n" and b: "n < 2 ^ floorlog 2 n"
    by simp_all
  have "int (floorlog 2 n) - 1 = int (floorlog 2 n - 1)" using pos by simp
  then have "(2::rat) powi (int (floorlog 2 n) - 1) = 2 ^ (floorlog 2 n - 1)" by (simp only: power_int_of_nat)
  also have "\<dots> = of_nat (2 ^ (floorlog 2 n - 1))" by simp
  also have "\<dots> \<le> of_nat n" using a by (simp only: of_nat_le_iff)
  finally show "(2::rat) powi (int (floorlog 2 n) - 1) \<le> of_nat n" .
  have "(of_nat n :: rat) < of_nat (2 ^ floorlog 2 n)" using b by (simp only: of_nat_less_iff)
  also have "\<dots> = 2 powi (int (floorlog 2 n))" by (simp add: power_int_of_nat)
  finally show "of_nat n < (2::rat) powi (int (floorlog 2 n))" .
qed

lemma floorLog2_correct:
  assumes x: "0 < x"
  shows "2 powi (floorLog2 x) \<le> x \<and> x < 2 powi (floorLog2 x + 1)"
proof -
  obtain p q where pq: "quotient_of x = (p, q)" by (cases "quotient_of x")
  then have q: "0 < q" by (rule quotient_of_denom_pos)
  from pq have xe: "x = of_int p / of_int q" by (rule quotient_of_div)
  with x q have p: "0 < p" by (simp add: zero_less_divide_iff)
  define a where "a = int (floorlog 2 (nat p))"
  define b where "b = int (floorlog 2 (nat q))"
  define d where "d = a - b"
  have np: "0 < nat p" and nq: "0 < nat q" using p q by simp_all
  have P: "(of_nat (nat p) :: rat) = of_int p" "(of_nat (nat q) :: rat) = of_int q"
    using p q by simp_all
  from floorlog2_bounds [OF np] have pa: "(2::rat) powi (a - 1) \<le> of_int p" "of_int p < (2::rat) powi a"
    unfolding a_def P by simp_all
  from floorlog2_bounds [OF nq] have qb: "(2::rat) powi (b - 1) \<le> of_int q" "of_int q < (2::rat) powi b"
    unfolding b_def P by simp_all
  have qpos: "(0::rat) < of_int q" using q by simp
  have "x < 2 powi a / 2 powi (b - 1)"
  proof -
    have "x < 2 powi a / of_int q" unfolding xe using pa(2) qpos by (simp add: divide_strict_right_mono)
    also have "\<dots> \<le> 2 powi a / 2 powi (b - 1)"
      using qb(1) powi2_pos [of a] mult_pos_pos [OF qpos powi2_pos [of "b - 1"]]
      by (intro divide_left_mono) simp_all
    finally show ?thesis .
  qed
  also have "(2::rat) powi a / 2 powi (b - 1) = 2 powi (d + 1)"
  proof -
    have "d + 1 = a - (b - 1)" by (simp add: d_def)
    then show ?thesis by (simp only: powi2_diff)
  qed
  finally have up: "x < 2 powi (d + 1)" .
  have "(2::rat) powi (d - 1) = 2 powi (a - 1) / 2 powi b"
  proof -
    have "d - 1 = a - 1 - b" by (simp add: d_def)
    then show ?thesis by (simp only: powi2_diff)
  qed
  also have "\<dots> \<le> of_int p / 2 powi b" using pa(1) by (simp add: divide_right_mono)
  also have "\<dots> \<le> of_int p / of_int q"
    using qb(2) qpos p mult_pos_pos [OF powi2_pos [of b] qpos]
    by (intro divide_left_mono) simp_all
  finally have lo: "2 powi (d - 1) \<le> x" unfolding xe .
  have fl: "floorLog2 x = (if 2 powi d \<le> x then d else d - 1)"
    by (simp add: floorLog2_def pq Let_def d_def a_def b_def)
  show ?thesis
  proof (cases "2 powi d \<le> x")
    case True
    with fl up show ?thesis by simp
  next
    case False
    with fl lo show ?thesis by simp
  qed
qed

lemma floorLog2_eqI:
  assumes lo: "2 powi L \<le> x" and up: "x < 2 powi (L + 1)"
  shows "floorLog2 x = L"
proof -
  from lo have x: "0 < x" by (rule powi2_le_pos)
  from floorLog2_correct [OF x] have a: "2 powi (floorLog2 x) \<le> x" and b: "x < 2 powi (floorLog2 x + 1)"
    by simp_all
  from lo b have "(2::rat) powi L < 2 powi (floorLog2 x + 1)" by simp
  then have 1: "L < floorLog2 x + 1" by (rule powi2_less_imp)
  from a up have "(2::rat) powi (floorLog2 x) < 2 powi (L + 1)" by simp
  then have "floorLog2 x < L + 1" by (rule powi2_less_imp)
  with 1 show ?thesis by simp
qed

lemma roundHalfEven_error: "\<bar>of_int (roundHalfEven y) - y\<bar> \<le> 1 / 2"
proof -
  have "of_int \<lfloor>y\<rfloor> \<le> y" "y < of_int \<lfloor>y\<rfloor> + 1" by linarith+
  then show ?thesis by (auto simp: roundHalfEven_def Let_def)
qed

lemma roundHalfEven_eqI:
  assumes "\<bar>y - of_int n\<bar> < 1 / 2"
  shows "roundHalfEven y = n"
proof -
  from roundHalfEven_error [of y] assms
  have "\<bar>(of_int (roundHalfEven y) :: rat) - of_int n\<bar> < 1" by linarith
  then have "\<bar>(of_int (roundHalfEven y - n) :: rat)\<bar> < 1" by simp
  then have "\<bar>roundHalfEven y - n\<bar> < 1" by (simp only: of_int_abs [symmetric] of_int_less_1_iff)
  then show ?thesis by simp
qed

lemma roundHalfEven_tie:
  assumes "y = of_int n + 1 / 2"
  shows "roundHalfEven y = (if even n then n else n + 1)"
proof -
  have "\<lfloor>y\<rfloor> = n" unfolding assms by (rule floor_unique) simp_all
  then show ?thesis by (simp add: roundHalfEven_def Let_def assms)
qed

lemma roundHalfEven_nonneg: "0 \<le> y \<Longrightarrow> 0 \<le> roundHalfEven y"
  by (auto simp: roundHalfEven_def Let_def)

lemma double_nonneg: "0 \<le> x \<Longrightarrow> 0 \<le> double x"
  by (simp add: double_def Let_def roundHalfEven_nonneg zero_less_power_int less_imp_le)

lemma double_normal:
  assumes x: "0 < x" and e: "- 1074 \<le> floorLog2 x - 52"
  shows "double x = of_int (roundHalfEven (x / 2 powi (floorLog2 x - 52))) * 2 powi (floorLog2 x - 52)"
proof -
  from x have a: "\<bar>x\<bar> = x" and nz: "x \<noteq> 0" by simp_all
  from e have m: "max (floorLog2 x - 52) (- 1074) = floorLog2 x - 52" by (rule max_absorb1)
  show ?thesis unfolding double_def Let_def a m using nz by (simp only: if_False)
qed

lemma double_eqI:
  assumes lo: "2 powi (e + 52) \<le> x" and up: "x < 2 powi (e + 53)" and e: "- 1074 \<le> e"
    and n: "\<bar>x / 2 powi e - of_int n\<bar> < 1 / 2"
  shows "double x = of_int n * 2 powi e"
proof -
  from lo have x: "0 < x" by (rule powi2_le_pos)
  have eq: "e + 52 + 1 = e + 53" by simp
  from up have "x < 2 powi (e + 52 + 1)" by (simp only: eq)
  with lo have "floorLog2 x = e + 52" by (rule floorLog2_eqI)
  with e have "- 1074 \<le> floorLog2 x - 52" and "floorLog2 x - 52 = e" by simp_all
  with double_normal [OF x] have "double x = of_int (roundHalfEven (x / 2 powi e)) * 2 powi e"
    by simp
  with roundHalfEven_eqI [OF n] show ?thesis by simp
qed

lemma double_tieI:
  assumes lo: "2 powi (e + 52) \<le> x" and up: "x < 2 powi (e + 53)" and e: "- 1074 \<le> e"
    and n: "x / 2 powi e = of_int n + 1 / 2"
  shows "double x = of_int (if even n then n else n + 1) * 2 powi e"
proof -
  from lo have x: "0 < x" by (rule powi2_le_pos)
  have eq: "e + 52 + 1 = e + 53" by simp
  from up have "x < 2 powi (e + 52 + 1)" by (simp only: eq)
  with lo have "floorLog2 x = e + 52" by (rule floorLog2_eqI)
  with e have "- 1074 \<le> floorLog2 x - 52" and "floorLog2 x - 52 = e" by simp_all
  with double_normal [OF x] have "double x = of_int (roundHalfEven (x / 2 powi e)) * 2 powi e"
    by simp
  with roundHalfEven_tie [OF n] show ?thesis by simp
qed

lemma double_relative_error:
  assumes y: "2 powi (- 1022) \<le> y"
  shows "\<bar>double y - y\<bar> \<le> y / 2 ^ 53"
proof -
  from y have pos: "0 < y" by (rule powi2_le_pos)
  define L where "L = floorLog2 y"
  from floorLog2_correct [OF pos] have lo: "2 powi L \<le> y" and up: "y < 2 powi (L + 1)"
    unfolding L_def by simp_all
  from y up have "(2::rat) powi (- 1022) < 2 powi (L + 1)" by simp
  then have "- 1022 < L + 1" by (rule powi2_less_imp)
  then have Lge: "- 1074 \<le> L - 52" by simp
  define e where "e = L - 52"
  have pe: "(0::rat) < 2 powi e" by (simp add: zero_less_power_int)
  have d: "double y = of_int (roundHalfEven (y / 2 powi e)) * 2 powi e"
    using double_normal [OF pos] Lge unfolding L_def e_def by simp
  have "\<bar>double y - y\<bar> = \<bar>of_int (roundHalfEven (y / 2 powi e)) - y / 2 powi e\<bar> * 2 powi e"
  proof -
    have "double y - y = (of_int (roundHalfEven (y / 2 powi e)) - y / 2 powi e) * 2 powi e"
      using pe by (simp add: d field_simps)
    then show ?thesis using pe by (simp add: abs_mult)
  qed
  also have "\<dots> \<le> 1 / 2 * 2 powi e"
    using roundHalfEven_error [of "y / 2 powi e"] pe by (intro mult_right_mono) simp_all
  also have "\<dots> = 2 powi L / 2 ^ 53"
  proof -
    have "(2::rat) powi L = 2 powi (e + 53 - 1)" by (simp add: e_def)
    also have "\<dots> = 2 powi e * 2 powi 53 / 2" by (simp add: power_int_add power_int_diff)
    finally show ?thesis by simp
  qed
  also have "\<dots> \<le> y / 2 ^ 53" using lo by (simp add: divide_right_mono)
  finally show ?thesis .
qed

section \<open>Properties of the video assembly loop\<close>

text \<open>The doubles that the loop computes for 2000 and for 2050 milliseconds.\<close>

lemma frameDuration_value: "frameDuration = 4803839602528529 / 2 ^ 57"
  unfolding frameDuration_def framerate_def
  using double_eqI [where x = "1 / 30" and e = "- 57" and n = 4803839602528529]
  by (simp add: power_int_minus_divide)

lemma frameDuration_bounds: "1 / 32 \<le> frameDuration" "frameDuration \<le> 1 / 16"
  unfolding frameDuration_value by simp_all

lemma double_2: "double 2 = 2"
  using double_eqI [where x = 2 and e = "- 51" and n = "2 ^ 52"]
  by (simp add: power_int_minus_divide)

lemma double_60: "double 60 = 60"
  using double_eqI [where x = 60 and e = "- 47" and n = "60 * 2 ^ 47"]
  by (simp add: power_int_minus_divide)

lemma double_2050: "double (2050 / 1000) = 2308094809027379 / 2 ^ 50"
  using double_eqI [where x = "2050 / 1000" and e = "- 51" and n = 4616189618054758]
  by (simp add: power_int_minus_divide)

lemma double_2050_30: "double (2308094809027379 / 2 ^ 50 * 30) = 8655355533852671 / 2 ^ 47"
  using double_eqI [where x = "2308094809027379 / 2 ^ 50 * 30" and e = "- 47"
                      and n = 8655355533852671]
  by (simp add: power_int_minus_divide)

lemma framesPerScene_2000: "framesPerScene 2000 = 60"
proof -
  have "mathRound 60 = 60" unfolding mathRound_def by (rule floor_unique) simp_all
  then show ?thesis by (simp add: framesPerScene_def framerate_def Let_def double_2 double_60)
qed

lemma framesPerScene_2050: "framesPerScene 2050 = 61"
proof -
  have "mathRound (8655355533852671 / 2 ^ 47) = 61"
    unfolding mathRound_def by (rule floor_unique) simp_all
  then show ?thesis
    unfolding framesPerScene_def framerate_def Let_def double_2050 double_2050_30 .
qed

lemma mathRound_2050: "mathRound (2050 / 1000 * 30) = 62"
  unfolding mathRound_def by (rule floor_unique) simp_all

lemma timestampAfter_0: "timestampAfter 0 = 0"
  by (simp add: timestampAfter_def)

lemma timestampAfter_Suc: "timestampAfter (Suc k) = double (timestampAfter k + frameDuration)"
  by (simp add: timestampAfter_def tick_def)

lemma timestampAfter_1: "timestampAfter (Suc 0) = 4803839602528529 / 2 ^ 57"
  unfolding timestampAfter_Suc timestampAfter_0 frameDuration_value
  using double_eqI [where x = "0 + 4803839602528529 / 2 ^ 57" and e = "- 57"
                      and n = 4803839602528529]
  by (simp add: power_int_minus_divide)

lemma timestampAfter_2: "timestampAfter (Suc (Suc 0)) = 4803839602528529 / 2 ^ 56"
  unfolding timestampAfter_Suc [of "Suc 0"] timestampAfter_1 frameDuration_value
  using double_eqI [where x = "4803839602528529 / 2 ^ 57 + 4803839602528529 / 2 ^ 57"
                      and e = "- 56" and n = 4803839602528529]
  by (simp add: power_int_minus_divide)

lemma timestampAfter_3: "timestampAfter (Suc (Suc (Suc 0))) = 7205759403792794 / 2 ^ 56"
  unfolding timestampAfter_Suc [of "Suc (Suc 0)"] timestampAfter_2 frameDuration_value
  using double_tieI [where x = "4803839602528529 / 2 ^ 56 + 4803839602528529 / 2 ^ 57"
                       and e = "- 56" and n = 7205759403792793]
  by (simp add: power_int_minus_divide)

text \<open>
  Below \<open>2\<^sup>4\<^sup>7\<close> frames the accumulated timestamp is at most the number of frames, and
  one more addition of the frame duration is not absorbed by the rounding.
\<close>

lemma double_error_numeral:
  assumes "1 / 32 \<le> y"
  shows "\<bar>double y - y\<bar> \<le> y / 9007199254740992"
proof -
  have "(2::rat) powi (- 1022) \<le> 1 / 32"
  proof -
    have "(2::rat) powi (- 1022) \<le> 2 powi (- 5)" by (rule power_int_increasing) simp_all
    then show ?thesis by (simp add: power_int_minus_divide)
  qed
  with assms have "2 powi (- 1022) \<le> y" by simp
  from double_relative_error [OF this] show ?thesis by simp
qed

lemma timestampAfter_bounds:
  "k \<le> 2 ^ 47 \<Longrightarrow> 0 \<le> timestampAfter k \<and> timestampAfter k \<le> of_nat k"
proof (induction k)
  case 0
  show ?case by (simp add: timestampAfter_0)
next
  case (Suc k)
  then have ih: "0 \<le> timestampAfter k" "timestampAfter k \<le> of_nat k" by simp_all
  define y where "y = timestampAfter k + frameDuration"
  from Suc.prems have "k \<le> 2 ^ 47" by simp
  then have "(of_nat k :: rat) \<le> of_nat (2 ^ 47)" by (simp only: of_nat_le_iff)
  then have kb: "(of_nat k :: rat) \<le> 140737488355328" by simp
  from ih frameDuration_bounds have y: "1 / 32 \<le> y" "y \<le> of_nat k + 1 / 16" unfolding y_def by simp_all
  from double_error_numeral [OF y(1)] have e: "double y \<le> y + y / 9007199254740992" by linarith
  from y(1) have "0 \<le> y" by simp
  then have nn: "0 \<le> double y" by (rule double_nonneg)
  from e y kb have "double y \<le> of_nat k + 1" by linarith
  with nn show ?case unfolding timestampAfter_Suc y_def [symmetric] by simp
qed

lemma timestampAfter_step:
  assumes k: "k < 2 ^ 47"
  shows "timestampAfter k < timestampAfter (Suc k)"
    and "\<bar>timestampAfter (Suc k) - timestampAfter k - 1 / 30\<bar> \<le> (of_nat k + 1) / 2 ^ 53"
proof -
  define a where "a = timestampAfter k"
  define y where "y = a + frameDuration"
  from k have "k \<le> 2 ^ 47" by simp
  from timestampAfter_bounds [OF this] have a: "0 \<le> a" "a \<le> of_nat k" unfolding a_def by simp_all
  from k have "(of_nat k :: rat) < of_nat (2 ^ 47)" by (simp only: of_nat_less_iff)
  then have kb: "(of_nat k :: rat) < 140737488355328" by simp
  from a frameDuration_bounds have y: "1 / 32 \<le> y" "y \<le> of_nat k + 1 / 16" unfolding y_def by simp_all
  from double_error_numeral [OF y(1)] have e: "\<bar>double y - y\<bar> \<le> y / 9007199254740992" .
  have s: "timestampAfter (Suc k) = double y" unfolding timestampAfter_Suc y_def a_def ..
  from e have e1: "y - y / 9007199254740992 \<le> double y" by linarith
  from y(2) kb have e2: "y / 9007199254740992 < 1 / 32" by linarith
  have "y = a + frameDuration" by (simp add: y_def)
  with e1 e2 frameDuration_bounds(1) have "a < double y" by linarith
  then show "timestampAfter k < timestampAfter (Suc k)" unfolding s a_def .
  have fd: "\<bar>frameDuration - 1 / 30\<bar> \<le> 1 / 30 / 9007199254740992"
    unfolding frameDuration_value by simp
  have "double y - a - 1 / 30 = (double y - y) + (frameDuration - 1 / 30)" by (simp add: y_def)
  then have "\<bar>double y - a - 1 / 30\<bar> \<le> \<bar>double y - y\<bar> + \<bar>frameDuration - 1 / 30\<bar>" by linarith
  also have "\<dots> \<le> y / 9007199254740992 + 1 / 30 / 9007199254740992" using e fd by linarith
  also have "\<dots> = (y + 1 / 30) / 9007199254740992" by (simp add: add_divide_distrib)
  also have "\<dots> \<le> (of_nat k + 1) / 9007199254740992"
  proof (rule divide_right_mono)
    from y(2) show "y + 1 / 30 \<le> of_nat k + 1" by linarith
  qed simp
  finally show "\<bar>timestampAfter (Suc k) - timestampAfter k - 1 / 30\<bar> \<le> (of_nat k + 1) / 2 ^ 53"
    unfolding s a_def by simp
qed

text \<open>One scene on a platform where every frame is rendered and accepted.\<close>

lemma tick_funpow_shift: "(tick ^^ m) (tick t) = (tick ^^ Suc m) t"
  by (simp add: funpow_swap1)

lemma renderScene_all:
  assumes ok: "\<forall>g. renderResolves pf g \<and> addResolves pf g"
  shows "\<exists>st'. renderScene pf tot fps s f st = Some st' \<and>
           submitted st' =
             submitted st @
               map (\<lambda>j. \<lparr> scene = s, frameInScene = j,
                            timestamp = (tick ^^ (j - f)) (currentTimestamp st),
                            duration = frameDuration \<rparr>) [f..<nat fps] \<and>
           currentTimestamp st' = (tick ^^ (nat fps - f)) (currentTimestamp st) \<and>
           globalFrameIndex st' = globalFrameIndex st + (nat fps - f)"
  using ok
proof (induction pf tot fps s f st rule: renderScene.induct)
  case (1 pf tot fps s f st)
  show ?case
  proof (cases "int f < fps")
    case False
    then have "nat fps \<le> f" by simp
    with False show ?thesis by (subst renderScene.simps) simp
  next
    case True
    then have lt: "f < nat fps" by simp
    define st1 where "st1 = st\<lparr> progress :=
        double (10 + double (double (of_nat (globalFrameIndex st) /
                                      double (of_nat tot * of_int fps)) * 85)) \<rparr>"
    define st2 where "st2 = st1\<lparr> submitted := submitted st1 @
                                         [\<lparr> scene = s, frameInScene = f,
                                            timestamp = currentTimestamp st1,
                                            duration = frameDuration \<rparr>],
                          currentTimestamp := double (currentTimestamp st1 + frameDuration),
                          globalFrameIndex := Suc (globalFrameIndex st1) \<rparr>"
    have r: "renderResolves pf (globalFrameIndex st1)" "addResolves pf (globalFrameIndex st1)"
      using "1.prems" by simp_all
    have step: "renderScene pf tot fps s f st = renderScene pf tot fps s (Suc f) st2"
      using True r by (subst renderScene.simps) (simp add: Let_def st1_def st2_def)
    have ih: "\<exists>st'. renderScene pf tot fps s (Suc f) st2 = Some st' \<and>
           submitted st' =
             submitted st2 @
               map (\<lambda>j. \<lparr> scene = s, frameInScene = j,
                            timestamp = (tick ^^ (j - Suc f)) (currentTimestamp st2),
                            duration = frameDuration \<rparr>) [Suc f..<nat fps] \<and>
           currentTimestamp st' = (tick ^^ (nat fps - Suc f)) (currentTimestamp st2) \<and>
           globalFrameIndex st' = globalFrameIndex st2 + (nat fps - Suc f)"
      using "1.IH" [OF True, of st1] r "1.prems" unfolding st1_def st2_def by simp
    then obtain st' where res: "renderScene pf tot fps s (Suc f) st2 = Some st'"
      and sub: "submitted st' =
             submitted st2 @
               map (\<lambda>j. \<lparr> scene = s, frameInScene = j,
                            timestamp = (tick ^^ (j - Suc f)) (currentTimestamp st2),
                            duration = frameDuration \<rparr>) [Suc f..<nat fps]"
      and ts: "currentTimestamp st' = (tick ^^ (nat fps - Suc f)) (currentTimestamp st2)"
      and gi: "globalFrameIndex st' = globalFrameIndex st2 + (nat fps - Suc f)"
      by blast
    have c2t: "currentTimestamp st2 = tick (currentTimestamp st)"
      by (simp add: st2_def st1_def tick_def)
    have upt: "[f..<nat fps] = f # [Suc f..<nat fps]" using lt by (rule upt_conv_Cons)
    have tail: "map (\<lambda>j. \<lparr> scene = s, frameInScene = j,
                            timestamp = (tick ^^ (j - Suc f)) (currentTimestamp st2),
                            duration = frameDuration \<rparr>) [Suc f..<nat fps] =
                map (\<lambda>j. \<lparr> scene = s, frameInScene = j,
                            timestamp = (tick ^^ (j - f)) (currentTimestamp st),
                            duration = frameDuration \<rparr>) [Suc f..<nat fps]"
    proof (rule map_cong [OF refl])
      fix j assume "j \<in> set [Suc f..<nat fps]"
      then have "j - f = Suc (j - Suc f)" by auto
      then have "(tick ^^ (j - Suc f)) (currentTimestamp st2) = (tick ^^ (j - f)) (currentTimestamp st)"
        unfolding c2t by (simp only: tick_funpow_shift)
      then show "\<lparr> scene = s, frameInScene = j,
                            timestamp = (tick ^^ (j - Suc f)) (currentTimestamp st2),
                            duration = frameDuration \<rparr> =
                 \<lparr> scene = s, frameInScene = j,
                            timestamp = (tick ^^ (j - f)) (currentTimestamp st),
                            duration = frameDuration \<rparr>"
        by simp
    qed
    have c1: "submitted st' = submitted st @
               map (\<lambda>j. \<lparr> scene = s, frameInScene = j,
                            timestamp = (tick ^^ (j - f)) (currentTimestamp st),
                            duration = frameDuration \<rparr>) [f..<nat fps]"
      unfolding sub tail upt by (simp add: st2_def st1_def)
    have d: "nat fps - f = Suc (nat fps - Suc f)" using lt by simp
    have c2: "currentTimestamp st' = (tick ^^ (nat fps - f)) (currentTimestamp st)"
      unfolding ts c2t d by (simp only: tick_funpow_shift)
    have c3: "globalFrameIndex st' = globalFrameIndex st + (nat fps - f)"
      using gi d by (simp add: st2_def st1_def)
    from step res c1 c2 c3 show ?thesis by simp
  qed
qed

lemma scenesDone_step:
  assumes ok: "\<forall>g. renderResolves pf g \<and> addResolves pf g"
    and inv: "scenesDone (nat fps) s st"
  shows "\<exists>st'. renderScene pf tot fps s 0 st = Some st' \<and> scenesDone (nat fps) (Suc s) st'"
proof -
  define n where "n = nat fps"
  define fs where "fs = map (\<lambda>j. \<lparr> scene = s, frameInScene = j,
                            timestamp = (tick ^^ (j - 0)) (currentTimestamp st),
                            duration = frameDuration \<rparr>) [0..<n]"
  from renderScene_all [OF ok, of tot fps s 0 st]
  obtain st' where res: "renderScene pf tot fps s 0 st = Some st'"
    and sub: "submitted st' = submitted st @ fs"
    and ts: "currentTimestamp st' = (tick ^^ n) (currentTimestamp st)"
    and gi: "globalFrameIndex st' = globalFrameIndex st + n"
    unfolding fs_def n_def by auto
  from inv have len: "length (submitted st) = s * n"
    and g0: "globalFrameIndex st = s * n"
    and t0: "currentTimestamp st = timestampAfter (s * n)"
    and old: "\<forall>k. k < s * n \<longrightarrow>
        timestamp (submitted st ! k) = timestampAfter k \<and>
        duration (submitted st ! k) = frameDuration"
    and cnt: "\<forall>s'. length (filter (\<lambda>f. scene f = s') (submitted st)) = (if s' < s then n else 0)"
    unfolding scenesDone_def n_def by blast+
  have after: "(tick ^^ j) (timestampAfter i) = timestampAfter (j + i)" for i j
    by (simp add: timestampAfter_def funpow_add)
  have lfs: "length fs = n" by (simp add: fs_def)
  have c1: "length (submitted st') = Suc s * n" using sub len lfs by simp
  have c2: "globalFrameIndex st' = Suc s * n" using gi g0 by simp
  have c3: "currentTimestamp st' = timestampAfter (Suc s * n)"
    unfolding ts t0 after by simp
  have c4: "timestamp (submitted st' ! k) = timestampAfter k \<and>
            duration (submitted st' ! k) = frameDuration" if k: "k < Suc s * n" for k
  proof (cases "k < s * n")
    case True
    with old len sub show ?thesis by (simp add: nth_append)
  next
    case False
    then have j: "k - s * n < n" using k by simp
    from False have "submitted st' ! k = fs ! (k - s * n)" using sub len by (simp add: nth_append)
    also have "\<dots> = \<lparr> scene = s, frameInScene = k - s * n,
                      timestamp = (tick ^^ (k - s * n)) (currentTimestamp st),
                      duration = frameDuration \<rparr>"
      using j by (simp add: fs_def)
    finally have e: "submitted st' ! k = \<lparr> scene = s, frameInScene = k - s * n,
                      timestamp = (tick ^^ (k - s * n)) (currentTimestamp st),
                      duration = frameDuration \<rparr>" .
    from False have "k - s * n + s * n = k" by simp
    then have "(tick ^^ (k - s * n)) (currentTimestamp st) = timestampAfter k"
      unfolding t0 after by simp
    with e show ?thesis by simp
  qed
  have ffs: "filter (\<lambda>f. scene f = s') fs = (if s' = s then fs else [])" for s'
    by (auto simp: fs_def filter_empty_conv)
  have c5: "length (filter (\<lambda>f. scene f = s') (submitted st')) = (if s' < Suc s then n else 0)" for s'
    using cnt lfs by (auto simp: sub ffs)
  have "scenesDone n (Suc s) st'"
    unfolding scenesDone_def by (intro conjI allI impI) (simp_all add: c1 c2 c3 c4 c5)
  with res show ?thesis unfolding n_def by simp
qed

lemma exportScenes_all:
  assumes ok: "\<forall>g. renderResolves pf g \<and> addResolves pf g"
    and na: "\<forall>i. \<not> abortedBefore pf i"
    and inv: "scenesDone (nat fps) s st" and le: "s \<le> tot"
  shows "\<exists>st'. exportScenes pf tot fps s st = (Exported, st') \<and> scenesDone (nat fps) tot st'"
  using ok na inv le
proof (induction pf tot fps s st rule: exportScenes.induct)
  case (1 pf tot fps s st)
  show ?case
  proof (cases "s < tot")
    case False
    with "1.prems" have "s = tot" by simp
    with "1.prems" show ?thesis by (subst exportScenes.simps) simp
  next
    case True
    from scenesDone_step [OF "1.prems"(1) "1.prems"(3), of tot]
    obtain st1 where r: "renderScene pf tot fps s 0 st = Some st1"
      and i: "scenesDone (nat fps) (Suc s) st1" by blast
    have nab: "\<not> abortedBefore pf s" using "1.prems"(2) by simp
    from True have "Suc s \<le> tot" by simp
    from "1.IH" [OF True nab r "1.prems"(1) "1.prems"(2) i this]
    obtain st' where "exportScenes pf tot fps (Suc s) st1 = (Exported, st')"
      and "scenesDone (nat fps) tot st'" by blast
    with True nab r show ?thesis by (subst exportScenes.simps) simp
  qed
qed

lemma mathRound_nonneg: "0 \<le> x \<Longrightarrow> 0 \<le> mathRound x"
  by (simp add: mathRound_def)

lemma framesPerScene_nonneg: "0 \<le> timing \<Longrightarrow> 0 \<le> framesPerScene timing"
  unfolding framesPerScene_def framerate_def Let_def
  by (intro mathRound_nonneg double_nonneg mult_nonneg_nonneg divide_nonneg_nonneg) simp_all

text \<open>
  A run that is neither cancelled nor failed by the platform: every scene gets
  \<open>framesPerScene timing\<close> frames, and the \<open>k\<close>-th submitted frame carries the
  timestamp accumulated over \<open>k\<close> frames.
\<close>

lemma exportVideo_completes:
  assumes seqs: "seqs \<noteq> []" and timing: "0 \<le> timing"
    and pf: "codecFound pf" "outputStarts pf" "finalizes pf" "hasBuffer pf"
    and na: "\<forall>i. \<not> abortedBefore pf i"
    and ok: "\<forall>g. renderResolves pf g \<and> addResolves pf g"
  shows "\<exists>st. exportVideo pf seqs timing = (Exported, st) \<and>
           (\<forall>s. int (length (filter (\<lambda>f. scene f = s) (submitted st))) =
                  (if s < length seqs then framesPerScene timing else 0)) \<and>
           int (length (submitted st)) = int (length seqs) * framesPerScene timing \<and>
           (\<forall>k. k < length (submitted st) \<longrightarrow>
              timestamp (submitted st ! k) = timestampAfter k \<and>
              duration (submitted st ! k) = frameDuration)"
proof -
  define fps where "fps = framesPerScene timing"
  define n where "n = nat fps"
  from timing have "0 \<le> fps" unfolding fps_def by (rule framesPerScene_nonneg)
  then have n: "int n = fps" by (simp add: n_def)
  define st10 where "st10 = \<lparr> currentTimestamp = 0, globalFrameIndex = 0, submitted = [],
                               progress = 10 \<rparr>"
  have "scenesDone (nat fps) 0 st10" by (simp add: scenesDone_def st10_def timestampAfter_0)
  from exportScenes_all [OF ok na this, of "length seqs"]
  obtain st where ex: "exportScenes pf (length seqs) fps 0 st10 = (Exported, st)"
    and fin: "scenesDone n (length seqs) st" unfolding n_def by auto
  let ?st = "st\<lparr> progress := 100 \<rparr>"
  have res: "exportVideo pf seqs timing = (Exported, ?st)"
    using seqs pf ex by (simp add: exportVideo_def Let_def fps_def [symmetric] st10_def)
  from fin have len: "length (submitted st) = length seqs * n"
    and all: "\<forall>k. k < length seqs * n \<longrightarrow>
        timestamp (submitted st ! k) = timestampAfter k \<and>
        duration (submitted st ! k) = frameDuration"
    and cnt: "\<forall>s'. length (filter (\<lambda>f. scene f = s') (submitted st)) =
                (if s' < length seqs then n else 0)"
    unfolding scenesDone_def by blast+
  have a: "\<forall>s. int (length (filter (\<lambda>f. scene f = s) (submitted ?st))) =
             (if s < length seqs then fps else 0)"
    using cnt n by simp
  have b: "int (length (submitted ?st)) = int (length seqs) * fps"
    using len n by simp
  have c: "\<forall>k. k < length (submitted ?st) \<longrightarrow>
              timestamp (submitted ?st ! k) = timestampAfter k \<and>
              duration (submitted ?st ! k) = frameDuration"
    using all len by simp
  show ?thesis unfolding fps_def [symmetric] by (rule exI [of _ ?st]) (intro conjI res a b c)
qed

text \<open>
  Claim C9, amended to the arithmetic of the code.  Take a list of scenes that is not
  empty, a scene duration that is not negative, a platform on which nothing fails and
  nobody cancels, and at most \<open>2\<^sup>4\<^sup>7\<close> frames in all.  Then \<^verbatim>\<open>exportVideo\<close> returns the video, and it has
  submitted for every scene exactly \<^verbatim>\<open>Math.round((timingMs / 1000) * 30)\<close> frames, where
  the quotient and the product are the rounded doubles.  The first timestamp is zero; each
  following one is the double nearest to the sum of the one before and the frame duration,
  the double nearest to \<open>1 / 30\<close>; it is strictly greater than the one before, and the
  step from frame \<open>k\<close> differs from \<open>1 / 30\<close> by at most \<open>(k + 1) / 2\<^sup>5\<^sup>3\<close>.  For
  2000 milliseconds the number of frames of a scene is 60.
\<close>

theorem export_frame_count:
  assumes seqs: "seqs \<noteq> []" and timing: "0 \<le> timing"
    and pf: "codecFound pf" "outputStarts pf" "finalizes pf" "hasBuffer pf"
    and na: "\<forall>i. \<not> abortedBefore pf i"
    and ok: "\<forall>g. renderResolves pf g \<and> addResolves pf g"
    and bound: "int (length seqs) * mathRound (double (double (timing / 1000) * 30)) \<le> 2 ^ 47"
  shows "\<exists>st. exportVideo pf seqs timing = (Exported, st) \<and>
           (\<forall>s<length seqs.
              int (length (filter (\<lambda>f. scene f = s) (submitted st))) =
                mathRound (double (double (timing / 1000) * 30))) \<and>
           int (length (submitted st)) =
             int (length seqs) * mathRound (double (double (timing / 1000) * 30)) \<and>
           (\<forall>k<length (submitted st). duration (submitted st ! k) = double (1 / 30)) \<and>
           (submitted st \<noteq> [] \<longrightarrow> timestamp (submitted st ! 0) = 0) \<and>
           (\<forall>k. Suc k < length (submitted st) \<longrightarrow>
              timestamp (submitted st ! Suc k) =
                double (timestamp (submitted st ! k) + double (1 / 30)) \<and>
              timestamp (submitted st ! k) < timestamp (submitted st ! Suc k) \<and>
              \<bar>timestamp (submitted st ! Suc k) - timestamp (submitted st ! k) - 1 / 30\<bar>
                \<le> (of_nat k + 1) / 2 ^ 53) \<and>
           mathRound (double (double (2000 / 1000) * 30)) = 60"
proof -
  have fps: "framesPerScene t = mathRound (double (double (t / 1000) * 30))" for t
    by (simp add: framesPerScene_def framerate_def Let_def)
  have fd: "frameDuration = double (1 / 30)" by (simp add: frameDuration_def framerate_def)
  from exportVideo_completes [OF seqs timing pf na ok]
  obtain st where res: "exportVideo pf seqs timing = (Exported, st)"
    and cnt: "\<forall>s. int (length (filter (\<lambda>f. scene f = s) (submitted st))) =
                  (if s < length seqs then framesPerScene timing else 0)"
    and len: "int (length (submitted st)) = int (length seqs) * framesPerScene timing"
    and all: "\<forall>k. k < length (submitted st) \<longrightarrow>
              timestamp (submitted st ! k) = timestampAfter k \<and>
              duration (submitted st ! k) = frameDuration"
    by blast
  from len bound have "int (length (submitted st)) \<le> 2 ^ 47" unfolding fps by simp
  then have lb: "length (submitted st) \<le> 2 ^ 47" by (simp add: of_nat_le_iff [symmetric] del: of_nat_le_iff)
  have a: "\<forall>s<length seqs. int (length (filter (\<lambda>f. scene f = s) (submitted st))) =
             mathRound (double (double (timing / 1000) * 30))"
    using cnt unfolding fps by simp
  have b: "int (length (submitted st)) =
             int (length seqs) * mathRound (double (double (timing / 1000) * 30))"
    using len unfolding fps .
  have c: "\<forall>k<length (submitted st). duration (submitted st ! k) = double (1 / 30)"
    using all unfolding fd by simp
  have z: "submitted st \<noteq> [] \<longrightarrow> timestamp (submitted st ! 0) = 0"
    using all by (simp add: timestampAfter_0)
  have d: "\<forall>k. Suc k < length (submitted st) \<longrightarrow>
              timestamp (submitted st ! Suc k) =
                double (timestamp (submitted st ! k) + double (1 / 30)) \<and>
              timestamp (submitted st ! k) < timestamp (submitted st ! Suc k) \<and>
              \<bar>timestamp (submitted st ! Suc k) - timestamp (submitted st ! k) - 1 / 30\<bar>
                \<le> (of_nat k + 1) / 2 ^ 53"
  proof (intro allI impI)
    fix k assume k: "Suc k < length (submitted st)"
    then have k': "k < length (submitted st)" by simp
    from k lb have kb: "k < 2 ^ 47" by simp
    from all k k' have t: "timestamp (submitted st ! k) = timestampAfter k"
      "timestamp (submitted st ! Suc k) = timestampAfter (Suc k)" by blast+
    show "timestamp (submitted st ! Suc k) =
                double (timestamp (submitted st ! k) + double (1 / 30)) \<and>
              timestamp (submitted st ! k) < timestamp (submitted st ! Suc k) \<and>
              \<bar>timestamp (submitted st ! Suc k) - timestamp (submitted st ! k) - 1 / 30\<bar>
                \<le> (of_nat k + 1) / 2 ^ 53"
      unfolding t using timestampAfter_step [OF kb] timestampAfter_Suc [of k]
      unfolding fd by (intro conjI)
  qed
  have e: "mathRound (double (double (2000 / 1000) * 30)) = 60"
    using framesPerScene_2000 unfolding fps .
  show ?thesis by (rule exI [of _ st]) (intro conjI res a b c z d e)
qed

text \<open>The theorem on two scenes of 2000 milliseconds: 60 frames each, 120 in all.\<close>

theorem export_frame_count_witness:
  "\<exists>st. exportVideo willingPlatform [exampleSeq 1, exampleSeq 2] 2000 = (Exported, st) \<and>
        length (filter (\<lambda>f. scene f = 0) (submitted st)) = 60 \<and>
        length (filter (\<lambda>f. scene f = 1) (submitted st)) = 60 \<and>
        length (submitted st) = 120 \<and>
        timestamp (submitted st ! 0) = 0 \<and>
        timestamp (submitted st ! 1) = double (1 / 30) \<and>
        timestamp (submitted st ! 118) < timestamp (submitted st ! 119)"
proof -
  have e: "mathRound (double (double (2000 / 1000) * 30)) = 60"
    using framesPerScene_2000 by (simp add: framesPerScene_def framerate_def Let_def)
  have h: "[exampleSeq 1, exampleSeq 2] \<noteq> []" "(0::rat) \<le> 2000"
      "codecFound willingPlatform" "outputStarts willingPlatform"
      "finalizes willingPlatform" "hasBuffer willingPlatform"
      "\<forall>i. \<not> abortedBefore willingPlatform i"
      "\<forall>g. renderResolves willingPlatform g \<and> addResolves willingPlatform g"
      "int (length [exampleSeq 1, exampleSeq 2]) * mathRound (double (double (2000 / 1000) * 30))
         \<le> 2 ^ 47"
    unfolding e by (simp_all add: willingPlatform_def)
  from export_frame_count [OF h]
  obtain st where r: "exportVideo willingPlatform [exampleSeq 1, exampleSeq 2] 2000 = (Exported, st)"
    and a: "\<forall>s<length [exampleSeq 1, exampleSeq 2].
              int (length (filter (\<lambda>f. scene f = s) (submitted st))) =
                mathRound (double (double (2000 / 1000) * 30))"
    and b: "int (length (submitted st)) =
              int (length [exampleSeq 1, exampleSeq 2]) *
                mathRound (double (double (2000 / 1000) * 30))"
    and z: "submitted st \<noteq> [] \<longrightarrow> timestamp (submitted st ! 0) = 0"
    and d: "\<forall>k. Suc k < length (submitted st) \<longrightarrow>
              timestamp (submitted st ! Suc k) =
                double (timestamp (submitted st ! k) + double (1 / 30)) \<and>
              timestamp (submitted st ! k) < timestamp (submitted st ! Suc k) \<and>
              \<bar>timestamp (submitted st ! Suc k) - timestamp (submitted st ! k) - 1 / 30\<bar>
                \<le> (of_nat k + 1) / 2 ^ 53"
    by blast
  from b have l: "length (submitted st) = 120" unfolding e by simp
  from a have f0: "int (length (filter (\<lambda>f. scene f = 0) (submitted st))) = 60"
    and f1: "int (length (filter (\<lambda>f. scene f = 1) (submitted st))) = 60" unfolding e by simp_all
  from l have ne: "submitted st \<noteq> []" by auto
  with z have t0: "timestamp (submitted st ! 0) = 0" by simp
  have "Suc 0 < length (submitted st)" "Suc 118 < length (submitted st)" using l by simp_all
  with d have t1: "timestamp (submitted st ! Suc 0) = double (timestamp (submitted st ! 0) + double (1 / 30))"
    and t119: "timestamp (submitted st ! 118) < timestamp (submitted st ! Suc 118)" by blast+
  have fd: "double (1 / 30) = 4803839602528529 / 2 ^ 57"
    using frameDuration_value by (simp add: frameDuration_def framerate_def)
  have "double (0 + 4803839602528529 / 2 ^ 57) = 4803839602528529 / 2 ^ 57"
    using timestampAfter_1 unfolding timestampAfter_Suc timestampAfter_0 frameDuration_value .
  then have t1': "timestamp (submitted st ! 1) = double (1 / 30)"
    using t1 unfolding t0 fd by simp
  from t119 have t119': "timestamp (submitted st ! 118) < timestamp (submitted st ! 119)" by simp
  from f0 f1 have "length (filter (\<lambda>f. scene f = 0) (submitted st)) = 60"
    "length (filter (\<lambda>f. scene f = 1) (submitted st)) = 60" by simp_all
  with r l t0 t1' t119' show ?thesis by (intro exI [of _ st] conjI)
qed

text \<open>
  Claim C9 as stated fails for one scene of 2050 milliseconds.  The count of the claim,
  \<open>round((sceneDurationMs / 1000) * 30)\<close>, is 62, since the product is 61.5.  The code gets the product
  61.49999999999999 and renders 61 frames for the scene.  The timestamps do not advance
  by \<open>1 / 30\<close> each, nor by one fixed step: the second frame is at the double nearest
  to \<open>1 / 30\<close>, which is not \<open>1 / 30\<close>, and the step from the third frame to the
  fourth is larger than the step from the first to the second.
\<close>

theorem export_2050_counterexample:
  "fst (exportVideo willingPlatform [exampleSeq 1] 2050) = Exported \<and>
   length (submitted (snd (exportVideo willingPlatform [exampleSeq 1] 2050))) = 61 \<and>
   mathRound (2050 / 1000 * 30) = 62 \<and>
   timestamp (submitted (snd (exportVideo willingPlatform [exampleSeq 1] 2050)) ! 1) \<noteq> 1 / 30 \<and>
   timestamp (submitted (snd (exportVideo willingPlatform [exampleSeq 1] 2050)) ! 3) -
     timestamp (submitted (snd (exportVideo willingPlatform [exampleSeq 1] 2050)) ! 2) \<noteq>
   timestamp (submitted (snd (exportVideo willingPlatform [exampleSeq 1] 2050)) ! 1) -
     timestamp (submitted (snd (exportVideo willingPlatform [exampleSeq 1] 2050)) ! 0)"
proof -
  have h: "[exampleSeq 1] \<noteq> []" "(0::rat) \<le> 2050"
      "codecFound willingPlatform" "outputStarts willingPlatform"
      "finalizes willingPlatform" "hasBuffer willingPlatform"
      "\<forall>i. \<not> abortedBefore willingPlatform i"
      "\<forall>g. renderResolves willingPlatform g \<and> addResolves willingPlatform g"
    by (simp_all add: willingPlatform_def)
  from exportVideo_completes [OF h]
  obtain st where r: "exportVideo willingPlatform [exampleSeq 1] 2050 = (Exported, st)"
    and len: "int (length (submitted st)) = int (length [exampleSeq 1]) * framesPerScene 2050"
    and all: "\<forall>k. k < length (submitted st) \<longrightarrow>
              timestamp (submitted st ! k) = timestampAfter k \<and>
              duration (submitted st ! k) = frameDuration"
    by blast
  from len have l: "length (submitted st) = 61" unfolding framesPerScene_2050 by simp
  have "0 < length (submitted st)" "Suc 0 < length (submitted st)"
    "Suc (Suc 0) < length (submitted st)" "Suc (Suc (Suc 0)) < length (submitted st)"
    unfolding l by simp_all
  with all have t: "timestamp (submitted st ! 0) = timestampAfter 0"
    "timestamp (submitted st ! Suc 0) = timestampAfter (Suc 0)"
    "timestamp (submitted st ! Suc (Suc 0)) = timestampAfter (Suc (Suc 0))"
    "timestamp (submitted st ! Suc (Suc (Suc 0))) = timestampAfter (Suc (Suc (Suc 0)))"
    by blast+
  have n: "(1::nat) = Suc 0" "(2::nat) = Suc (Suc 0)" "(3::nat) = Suc (Suc (Suc 0))"
    by simp_all
  have v: "timestamp (submitted st ! 0) = 0"
    "timestamp (submitted st ! 1) = 4803839602528529 / 2 ^ 57"
    "timestamp (submitted st ! 2) = 4803839602528529 / 2 ^ 56"
    "timestamp (submitted st ! 3) = 7205759403792794 / 2 ^ 56"
    unfolding n t timestampAfter_0 timestampAfter_1 timestampAfter_2 timestampAfter_3
    by (rule refl)+
  show ?thesis unfolding r fst_conv snd_conv v l using mathRound_2050 by simp
qed

end
